theory Spec2Isabelle
  imports Complex_Main
begin

section \<open>The spline environments of sdriving/envs/spline\_env.py\<close>

text \<open>
  Shallow embedding of \<^verbatim>\<open>RoadIntersectionSplineEnv\<close> (the full-offset variant) and
  \<^verbatim>\<open>RoadIntersectionLeftRightControlEnv\<close> (the left/right variant).

  Conventions. Python and torch floats are modelled by \<^typ>\<open>real\<close>: rounding is not
  modelled, comparisons and sums are the exact ones. A Python exception is a value
  \<open>Inl e\<close> of the result type; the environment after an exception is not modelled
  (no caller in the file catches one). A Python \<^verbatim>\<open>dict\<close> that is iterated
  (\<^verbatim>\<open>actions.items()\<close>, \<^verbatim>\<open>rew.items()\<close>) is the list of its items in
  iteration order; a \<^verbatim>\<open>dict\<close> that is only indexed is a map.
\<close>

subsection \<open>Python primitives\<close>

datatype error = KeyError | IndexError | ValueError | TypeError | ZeroDivisionError

text \<open>
  \<^verbatim>\<open>xs[i]\<close> on a Python list: indices \<open>0 \<le> i < n\<close> select from the front,
  indices \<open>-n \<le> i < 0\<close> from the back, everything else raises \<^verbatim>\<open>IndexError\<close>.
  The result is the position read, \<open>None\<close> standing for the exception.
\<close>

definition py_index :: "'a list \<Rightarrow> int \<Rightarrow> nat option" where
  "py_index xs i =
     (let n = int (length xs)
      in if 0 \<le> i \<and> i < n then Some (nat i)
         else if - n \<le> i \<and> i < 0 then Some (nat (i + n))
         else None)"

text \<open>
  \<^verbatim>\<open>np.arange(start, stop, step)\<close> on floats: \<open>\<lceil>(stop - start) / step\<rceil>\<close> values
  \<open>start + i * step\<close>.
\<close>

definition np_arange :: "real \<Rightarrow> real \<Rightarrow> real \<Rightarrow> real list" where
  "np_arange start stop step =
     map (\<lambda>i. start + real i * step) [0 ..< nat \<lceil>(stop - start) / step\<rceil>]"

subsection \<open>The action catalogs\<close>

text \<open>
  \<^verbatim>\<open>configure_action_list\<close> of the full-offset variant: \<^verbatim>\<open>itertools.product\<close> of the
  grid with itself, the first component varying slowest. Each entry is a tensor of
  shape (1, 2), modelled by the pair of its two numbers.
\<close>

type_synonym point = "real \<times> real"

definition actions_list :: "point list" where
  "actions_list =
     List.product (np_arange (- 0.75) 0.76 0.25) (np_arange (- 0.75) 0.76 0.25)"

text \<open>\<^verbatim>\<open>get_action_space\<close>: the \<open>n\<close> of \<^verbatim>\<open>Discrete(n)\<close>.\<close>

definition get_action_space :: nat where
  "get_action_space = length actions_list"

text \<open>The same two methods as the left/right variant overrides and inherits them.\<close>

definition lr_actions_list :: "real list" where
  "lr_actions_list = [- 0.5, 0.0, 0.5]"

definition lr_get_action_space :: nat where
  "lr_get_action_space = length lr_actions_list"

text \<open>
  \<^verbatim>\<open>accln_control_actions_list\<close> of the constructor: the catalog that
  \<^verbatim>\<open>transform_state_action_single_agent\<close> indexes. Each entry is a tensor of
  shape (1, 1), modelled by its one row.
\<close>

definition accln_control_actions_list :: "real list list" where
  "accln_control_actions_list = map (\<lambda>ac. [ac]) (np_arange (- 1.5) 1.75 0.25)"

subsection \<open>The dummy point\<close>

text \<open>
  An entry of a track is a tensor of shape (1, 2) or, where \<^verbatim>\<open>get_dummy_point\<close> fell
  through its four branches, Python's \<^verbatim>\<open>None\<close>. The full-offset \<^verbatim>\<open>step\<close> appends
  a view of an intermediate goal, which shares the goal's storage: \<open>GoalView j\<close>
  is the view of the first two numbers of the agent's intermediate goal number \<open>j\<close>.
\<close>

datatype tentry = PyNone | Val point | GoalView nat

text \<open>\<^verbatim>\<open>get_dummy_point\<close>, with \<^verbatim>\<open>self.width\<close> and \<^verbatim>\<open>self.length\<close> as arguments.\<close>

definition get_dummy_point :: "real \<Rightarrow> real \<Rightarrow> point \<Rightarrow> tentry" where
  "get_dummy_point w l pt =
     (case pt of (x, y) \<Rightarrow>
        if x > w / 2 then Val (l + w / 2, y)
        else if x < - w / 2 then Val (- (l + w / 2), y)
        else if y > w / 2 then Val (x, l + w / 2)
        else if y < - w / 2 then Val (x, - (l + w / 2))
        else PyNone)"

subsection \<open>Agents and the environment\<close>

text \<open>
  An intermediate goal is a one-dimensional tensor with at least two numbers: the pair
  \<^verbatim>\<open>[:2]\<close> and the rest. The agent record is the dictionary
  \<^verbatim>\<open>self.agents[a_id]\<close>: the vehicle's position, speed and orientation, the
  \<^verbatim>\<open>"road name"\<close>, and the fields the spline environment adds. The dynamics model is
  external: \<open>registered\<close> is the log of the tracks passed to its
  \<^verbatim>\<open>register_track\<close>, oldest first.
\<close>

type_synonym aid = string

type_synonym goal = "point \<times> real list"

record agent =
  position :: point
  speed :: real
  orientation :: real
  road_name :: string
  intermediate_goals :: "goal list"
  track_point :: int
  previous_start_point :: tentry
  track :: "tentry list"
  registered :: "point list list"

text \<open>
  The environment: \<^verbatim>\<open>self.width\<close>, \<^verbatim>\<open>self.length\<close>, the list that
  \<^verbatim>\<open>get_agent_ids_list()\<close> returns, \<^verbatim>\<open>self.agents\<close>, \<^verbatim>\<open>self.curr_actions\<close>,
  \<^verbatim>\<open>self.prev_state\<close>, and \<open>base\<close>, the state of the base intersection
  environment that this file never reads.
\<close>

record ('o, 'b) env =
  width :: real
  length_road :: real
  agent_ids :: "aid list"
  agents :: "aid \<rightharpoonup> agent"
  curr_actions :: "aid \<rightharpoonup> real list"
  prev_state :: "(aid \<times> 'o) list"
  base :: 'b

text \<open>
  The external collaborators of the rollout loop: the base class's
  \<^verbatim>\<open>get_state_single_agent\<close>, the frozen policy's \<^verbatim>\<open>act(obs, True)\<close>, and the
  base class's \<^verbatim>\<open>step\<close>, which returns the reward dictionary (its items),
  \<^verbatim>\<open>dones["__all__"]\<close> and the environment it leaves.
\<close>

record ('o, 'c, 'b) externals =
  super_get_state_single_agent :: "('o, 'b) env \<Rightarrow> aid \<Rightarrow> 'o \<times> ('o, 'b) env"
  accln_control_act :: "'o \<Rightarrow> 'c"
  super_step :: "(aid \<times> 'c) list \<Rightarrow> ('o, 'b) env \<Rightarrow> (aid \<times> real) list \<times> bool \<times> ('o, 'b) env"

text \<open>
  The numbers a track entry holds now. A view reads the goal it shares storage with;
  views are only made at positions inside \<open>intermediate_goals\<close>, whose length no
  operation changes.
\<close>

definition deref :: "agent \<Rightarrow> tentry \<Rightarrow> point option" where
  "deref ag e =
     (case e of
        PyNone \<Rightarrow> None
      | Val p \<Rightarrow> Some p
      | GoalView j \<Rightarrow> Some (fst (intermediate_goals ag ! j)))"

text \<open>
  \<^verbatim>\<open>torch.cat(self.agents[a_id]["track"], dim=0)\<close>: a fresh tensor holding the rows,
  \<open>None\<close> for the \<^verbatim>\<open>TypeError\<close> raised when an entry is Python's \<^verbatim>\<open>None\<close>.
\<close>

definition torch_cat :: "agent \<Rightarrow> point list option" where
  "torch_cat ag = those (map (deref ag) (track ag))"

subsection \<open>add\_vehicle and the observations\<close>

text \<open>
  \<^verbatim>\<open>add_vehicle\<close>. The call of the base class's \<^verbatim>\<open>add_vehicle\<close> with all its
  arguments is the parameter \<open>super_add_vehicle\<close>. The position tensor of the vehicle
  is entered by value.
\<close>

definition add_vehicle ::
  "(('o, 'b) env \<Rightarrow> 'r \<times> ('o, 'b) env) \<Rightarrow> aid \<Rightarrow> ('o, 'b) env \<Rightarrow> error + ('r \<times> ('o, 'b) env)" where
  "add_vehicle super_add_vehicle a_id env =
     (case super_add_vehicle env of (ret_val, env1) \<Rightarrow>
        (case agents env1 a_id of
           None \<Rightarrow> Inl KeyError
         | Some ag \<Rightarrow>
             Inr (ret_val,
                  env1\<lparr>agents := (agents env1)(a_id \<mapsto>
                    ag\<lparr>track_point := 0,
                       previous_start_point := Val (position ag),
                       track := [get_dummy_point (width env1) (length_road env1) (position ag),
                                 Val (position ag)]\<rparr>)\<rparr>)))"

text \<open>\<^verbatim>\<open>get_state_single_agent\<close> of the full-offset variant.\<close>

definition get_state_single_agent ::
  "('o, 'b) env \<Rightarrow> aid \<Rightarrow> error + (real list option \<times> ('o, 'b) env)" where
  "get_state_single_agent env a_id =
     (case agents env a_id of
        None \<Rightarrow> Inl KeyError
      | Some ag \<Rightarrow>
          if track_point ag \<ge> int (length (intermediate_goals ag)) then Inr (None, env)
          else
            (case py_index (intermediate_goals ag) (track_point ag) of
               None \<Rightarrow> Inl IndexError
             | Some j \<Rightarrow>
                 (case deref ag (previous_start_point ag) of
                    None \<Rightarrow> Inl TypeError
                  | Some prev \<Rightarrow>
                      if width env = 0 \<or> length_road env = 0 then Inl ZeroDivisionError
                      else
                        let next_point = fst (intermediate_goals ag ! j);
                            lw = length_road env + width env / 2
                        in Inr (Some [fst prev / lw, snd prev / lw,
                                      fst next_point / lw, snd next_point / lw,
                                      1 / width env, 1 / length_road env],
                                env\<lparr>agents := (agents env)(a_id \<mapsto>
                                  ag\<lparr>track_point := track_point ag + 1\<rparr>)\<rparr>))))"

text \<open>
  Modelled from the spec: the base environment's \<^verbatim>\<open>get_state\<close>, which the base class
  defines outside spline\_env.py. It returns the observation map, one
  \<^verbatim>\<open>get_state_single_agent\<close> per agent of \<^verbatim>\<open>get_agent_ids_list()\<close>, in that
  order.
\<close>

fun get_state_loop ::
  "('o, 'b) env \<Rightarrow> aid list \<Rightarrow> error + ((aid \<times> real list option) list \<times> ('o, 'b) env)" where
  "get_state_loop env [] = Inr ([], env)"
| "get_state_loop env (a_id # rest) =
     (case get_state_single_agent env a_id of
        Inl e \<Rightarrow> Inl e
      | Inr (ob, env1) \<Rightarrow>
          (case get_state_loop env1 rest of
             Inl e \<Rightarrow> Inl e
           | Inr (obs, env2) \<Rightarrow> Inr ((a_id, ob) # obs, env2)))"

definition get_state ::
  "('o, 'b) env \<Rightarrow> error + ((aid \<times> real list option) list \<times> ('o, 'b) env)" where
  "get_state env = get_state_loop env (agent_ids env)"

text \<open>\<^verbatim>\<open>get_internal_state\<close>: the base class's observation of every agent.\<close>

fun internal_state_loop ::
  "(('o, 'b) env \<Rightarrow> aid \<Rightarrow> 'o \<times> ('o, 'b) env) \<Rightarrow> ('o, 'b) env \<Rightarrow> aid list
     \<Rightarrow> (aid \<times> 'o) list \<times> ('o, 'b) env" where
  "internal_state_loop f env [] = ([], env)"
| "internal_state_loop f env (a_id # rest) =
     (case f env a_id of (ob, env1) \<Rightarrow>
        (case internal_state_loop f env1 rest of (obs, env2) \<Rightarrow> ((a_id, ob) # obs, env2)))"

definition get_internal_state ::
  "('o, 'c, 'b) externals \<Rightarrow> ('o, 'b) env \<Rightarrow> (aid \<times> 'o) list \<times> ('o, 'b) env" where
  "get_internal_state X env =
     (case internal_state_loop (super_get_state_single_agent X) env (agent_ids env) of
        (states, env1) \<Rightarrow> (states, env1\<lparr>prev_state := states\<rparr>))"

subsection \<open>The rollout loop\<close>

text \<open>
  \<^verbatim>\<open>for a_id, r in rew.items(): rewards[a_id] += r\<close>. An id that is not a key of
  \<^verbatim>\<open>rewards\<close> raises \<^verbatim>\<open>KeyError\<close>.
\<close>

fun add_rewards :: "(aid \<times> real) list \<Rightarrow> (aid \<rightharpoonup> real) \<Rightarrow> error + (aid \<rightharpoonup> real)" where
  "add_rewards [] rewards = Inr rewards"
| "add_rewards ((a_id, r) # rest) rewards =
     (case rewards a_id of
        None \<Rightarrow> Inl KeyError
      | Some v \<Rightarrow> add_rewards rest (rewards(a_id \<mapsto> v + r)))"

text \<open>\<^verbatim>\<open>{a_id: 0.0 for a_id in self.get_agent_ids_list()}\<close>\<close>

definition init_rewards :: "aid list \<Rightarrow> (aid \<rightharpoonup> real)" where
  "init_rewards ids = map_of (map (\<lambda>a_id. (a_id, 0)) ids)"

text \<open>
  One pass of the body of \<^verbatim>\<open>while not done\<close> up to the call of the base class's
  \<^verbatim>\<open>step\<close>: the reward items and \<^verbatim>\<open>dones["__all__"]\<close> it returned, and the
  environment it left.
\<close>

definition tick ::
  "('o, 'c, 'b) externals \<Rightarrow> ('o, 'b) env \<Rightarrow> (aid \<times> real) list \<times> bool \<times> ('o, 'b) env" where
  "tick X env =
     (case get_internal_state X env of (states, env1) \<Rightarrow>
        super_step X (map (\<lambda>(a_id, obs). (a_id, accln_control_act X obs)) states) env1)"

text \<open>
  The loop \<^verbatim>\<open>while not done\<close>, entered with \<^verbatim>\<open>done = False\<close>. It ends when the base
  environment reports \<^verbatim>\<open>dones["__all__"]\<close>; a loop that never ends has the value
  \<open>None\<close>.
\<close>

partial_function (option) rollout ::
  "('o, 'c, 'b) externals \<Rightarrow> ('o, 'b) env \<Rightarrow> (aid \<rightharpoonup> real)
     \<Rightarrow> (error + ((aid \<rightharpoonup> real) \<times> ('o, 'b) env)) option" where
  "rollout X env rewards =
     (case tick X env of (rew, dones_all, env1) \<Rightarrow>
        (case add_rewards rew rewards of
           Inl e \<Rightarrow> Some (Inl e)
         | Inr rewards1 \<Rightarrow>
             if dones_all then Some (Inr (rewards1, env1)) else rollout X env1 rewards1))"

subsection \<open>step of the full-offset variant\<close>

text \<open>
  The body of \<^verbatim>\<open>for a_id, action in actions.items()\<close> for one item. The in-place
  \<^verbatim>\<open>pt += deviation\<close> writes through the view \<^verbatim>\<open>pt\<close> into the intermediate goal;
  \<^verbatim>\<open>previous_start_point\<close> and the new track entry are views of the same goal. The
  result says whether this agent reached the length test.
\<close>

definition step_agent ::
  "('o, 'b) env \<Rightarrow> aid \<Rightarrow> int \<Rightarrow> error + (bool \<times> ('o, 'b) env)" where
  "step_agent env a_id action =
     (case agents env a_id of
        None \<Rightarrow> Inl KeyError
      | Some ag \<Rightarrow>
          (case py_index (intermediate_goals ag) (track_point ag - 1) of
             None \<Rightarrow> Inl IndexError
           | Some j \<Rightarrow>
               (case py_index actions_list action of
                  None \<Rightarrow> Inl IndexError
                | Some k \<Rightarrow>
                    let g = intermediate_goals ag ! j;
                        pt = (fst (fst g) + fst (actions_list ! k) * width env / 2,
                              snd (fst g) + snd (actions_list ! k) * width env / 2);
                        ag1 = ag\<lparr>intermediate_goals := (intermediate_goals ag)[j := (pt, snd g)],
                                 previous_start_point := GoalView j,
                                 track := track ag @ [GoalView j]\<rparr>
                    in if length (track ag1) = length (intermediate_goals ag1) + 2 then
                         let ag2 = ag1\<lparr>track := track ag1 @
                                     [get_dummy_point (width env) (length_road env) pt]\<rparr>
                         in (case torch_cat ag2 of
                               None \<Rightarrow> Inl TypeError
                             | Some tr \<Rightarrow>
                                 Inr (True,
                                      env\<lparr>agents := (agents env)(a_id \<mapsto>
                                        ag2\<lparr>registered := registered ag2 @ [tr]\<rparr>)\<rparr>))
                       else Inr (False, env\<lparr>agents := (agents env)(a_id \<mapsto> ag1)\<rparr>))))"

text \<open>The \<^verbatim>\<open>for\<close> loop, carrying the flag \<^verbatim>\<open>completed\<close>.\<close>

fun step_loop ::
  "('o, 'b) env \<Rightarrow> (aid \<times> int) list \<Rightarrow> bool \<Rightarrow> error + (bool \<times> ('o, 'b) env)" where
  "step_loop env [] completed = Inr (completed, env)"
| "step_loop env ((a_id, action) # rest) completed =
     (case step_agent env a_id action of
        Inl e \<Rightarrow> Inl e
      | Inr (c, env1) \<Rightarrow> step_loop env1 rest (completed \<or> c))"

text \<open>
  What \<^verbatim>\<open>step\<close> returns: the observation (or \<^verbatim>\<open>None\<close>), the reward, which is the
  float \<^verbatim>\<open>0.0\<close> or a dictionary, and \<^verbatim>\<open>done\<close>. The fourth component is always the
  empty dictionary and is left out.
\<close>

datatype reward = Scalar real | PerAgent "aid \<rightharpoonup> real"

type_synonym step_result = "(aid \<times> real list option) list option \<times> reward \<times> bool"

definition step ::
  "('o, 'c, 'b) externals \<Rightarrow> (aid \<times> int) list \<Rightarrow> ('o, 'b) env
     \<Rightarrow> (error + (step_result \<times> ('o, 'b) env)) option" where
  "step X actions env =
     (case step_loop env actions False of
        Inl e \<Rightarrow> Some (Inl e)
      | Inr (completed, env1) \<Rightarrow>
          if \<not> completed then
            (case get_state env1 of
               Inl e \<Rightarrow> Some (Inl e)
             | Inr (obs, env2) \<Rightarrow> Some (Inr ((Some obs, Scalar 0, False), env2)))
          else
            (case rollout X env1 (init_rewards (agent_ids env1)) of
               None \<Rightarrow> None
             | Some (Inl e) \<Rightarrow> Some (Inl e)
             | Some (Inr (rewards, env2)) \<Rightarrow>
                 Some (Inr ((None, PerAgent rewards, True), env2))))"

subsection \<open>step of the left/right variant\<close>

text \<open>\<^verbatim>\<open>(int(self.agents[a_id]["road name"][-1]) + 1) % 2\<close>\<close>

definition digit_of :: "char \<Rightarrow> nat option" where
  "digit_of c =
     (if 48 \<le> (of_char c :: nat) \<and> (of_char c :: nat) \<le> 57 then Some (of_char c - 48)
      else None)"

definition road_coord :: "string \<Rightarrow> error + nat" where
  "road_coord rname =
     (if rname = [] then Inl IndexError
      else (case digit_of (last rname) of
              None \<Rightarrow> Inl ValueError
            | Some d \<Rightarrow> Inr ((d + 1) mod 2)))"

text \<open>
  \<^verbatim>\<open>for pt in self.agents[a_id]["intermediate_goals"]\<close>: the points appended to the
  track, each a clone of the goal's \<^verbatim>\<open>[:2]\<close> with the deviation added at \<open>coord\<close>.
  The catalog is indexed once per goal.
\<close>

fun lr_points :: "real \<Rightarrow> nat \<Rightarrow> int \<Rightarrow> goal list \<Rightarrow> error + point list" where
  "lr_points w coord action [] = Inr []"
| "lr_points w coord action (g # gs) =
     (case py_index lr_actions_list action of
        None \<Rightarrow> Inl IndexError
      | Some k \<Rightarrow>
          (case lr_points w coord action gs of
             Inl e \<Rightarrow> Inl e
           | Inr pts \<Rightarrow>
               Inr ((if coord = 0
                     then (fst (fst g) + lr_actions_list ! k * w / 2, snd (fst g))
                     else (fst (fst g), snd (fst g) + lr_actions_list ! k * w / 2)) # pts)))"

text \<open>The body of the \<^verbatim>\<open>for\<close> loop over \<^verbatim>\<open>actions.items()\<close> for one item.\<close>

definition lr_step_agent :: "('o, 'b) env \<Rightarrow> aid \<Rightarrow> int \<Rightarrow> error + ('o, 'b) env" where
  "lr_step_agent env a_id action =
     (case agents env a_id of
        None \<Rightarrow> Inl KeyError
      | Some ag \<Rightarrow>
          (case road_coord (road_name ag) of
             Inl e \<Rightarrow> Inl e
           | Inr coord \<Rightarrow>
               (case lr_points (width env) coord action (intermediate_goals ag) of
                  Inl e \<Rightarrow> Inl e
                | Inr pts \<Rightarrow>
                    if track ag @ map Val pts = [] then Inl IndexError
                    else
                      (case deref ag (last (track ag @ map Val pts)) of
                         None \<Rightarrow> Inl TypeError
                       | Some p \<Rightarrow>
                           let ag1 = ag\<lparr>track := track ag @ map Val pts @
                                       [get_dummy_point (width env) (length_road env) p]\<rparr>
                           in (case torch_cat ag1 of
                                 None \<Rightarrow> Inl TypeError
                               | Some tr \<Rightarrow>
                                   Inr (env\<lparr>agents := (agents env)(a_id \<mapsto>
                                     ag1\<lparr>registered := registered ag1 @ [tr]\<rparr>)\<rparr>))))))"

fun lr_step_loop :: "('o, 'b) env \<Rightarrow> (aid \<times> int) list \<Rightarrow> error + ('o, 'b) env" where
  "lr_step_loop env [] = Inr env"
| "lr_step_loop env ((a_id, action) # rest) =
     (case lr_step_agent env a_id action of
        Inl e \<Rightarrow> Inl e
      | Inr env1 \<Rightarrow> lr_step_loop env1 rest)"

definition lr_step ::
  "('o, 'c, 'b) externals \<Rightarrow> (aid \<times> int) list \<Rightarrow> ('o, 'b) env
     \<Rightarrow> (error + (step_result \<times> ('o, 'b) env)) option" where
  "lr_step X actions env =
     (case lr_step_loop env actions of
        Inl e \<Rightarrow> Some (Inl e)
      | Inr env1 \<Rightarrow>
          (case rollout X env1 (init_rewards (agent_ids env1)) of
             None \<Rightarrow> None
           | Some (Inl e) \<Rightarrow> Some (Inl e)
           | Some (Inr (rewards, env2)) \<Rightarrow>
               Some (Inr ((None, PerAgent rewards, True), env2))))"

subsection \<open>transform\_state\_action\_single\_agent\<close>

text \<open>
  \<^verbatim>\<open>for _ in range(timesteps)\<close>: the lists \<^verbatim>\<open>nominal_states\<close> and
  \<^verbatim>\<open>nominal_actions\<close> after the remaining passes. The callable
  \<^verbatim>\<open>self.agents[a_id]["dynamics"]\<close> is the parameter \<open>dynamics\<close>.
\<close>

fun nominal_loop ::
  "(real list \<Rightarrow> real list \<Rightarrow> real list) \<Rightarrow> real list \<Rightarrow> nat
     \<Rightarrow> real list list \<times> real list list \<Rightarrow> real list list \<times> real list list" where
  "nominal_loop dynamics action 0 acc = acc"
| "nominal_loop dynamics action (Suc n) (nominal_states, nominal_actions) =
     nominal_loop dynamics action n
       (nominal_states @ [dynamics (last nominal_states) action],
        nominal_actions @ [action])"

text \<open>
  The method itself. Its argument \<^verbatim>\<open>state\<close> is never read and is left out. The result
  is \<^verbatim>\<open>(na, ns, ex)\<close> and the environment with \<^verbatim>\<open>curr_actions[a_id]\<close> set.
\<close>

definition transform_state_action_single_agent ::
  "(agent \<Rightarrow> real list \<Rightarrow> real list \<Rightarrow> real list) \<Rightarrow> ('o, 'b) env \<Rightarrow> aid \<Rightarrow> int \<Rightarrow> int
     \<Rightarrow> error + ((real list \<times> real list \<times> real list list \<times> real list list) \<times> ('o, 'b) env)" where
  "transform_state_action_single_agent dynamics env a_id action timesteps =
     (case agents env a_id of
        None \<Rightarrow> Inl KeyError
      | Some ag \<Rightarrow>
          (case py_index accln_control_actions_list action of
             None \<Rightarrow> Inl IndexError
           | Some k \<Rightarrow>
               let start_state = [fst (position ag), snd (position ag), speed ag, orientation ag];
                   act = accln_control_actions_list ! k;
                   ex = nominal_loop (dynamics ag) act (nat timesteps) ([start_state], [act])
               in Inr (([0, 0, 0, 0], [0, 0, 0, 0], ex),
                       env\<lparr>curr_actions := (curr_actions env)(a_id \<mapsto> act)\<rparr>)))"

subsection \<open>Call sequences and rollout ticks\<close>

text \<open>
  A sequence of calls of the track builder and of the observation: \<open>Extend\<close> is
  one pass of the \<^verbatim>\<open>for\<close> loop of the full-offset \<^verbatim>\<open>step\<close> for an agent,
  \<open>Observe\<close> one call of \<^verbatim>\<open>get_state_single_agent\<close>. The run stops at the first
  exception.
\<close>

datatype op = Extend aid int | Observe aid

fun run_ops :: "('o, 'b) env \<Rightarrow> op list \<Rightarrow> error + ('o, 'b) env" where
  "run_ops env [] = Inr env"
| "run_ops env (Extend a_id action # ops) =
     (case step_agent env a_id action of
        Inl e \<Rightarrow> Inl e
      | Inr (c, env1) \<Rightarrow> run_ops env1 ops)"
| "run_ops env (Observe a_id # ops) =
     (case get_state_single_agent env a_id of
        Inl e \<Rightarrow> Inl e
      | Inr (ob, env1) \<Rightarrow> run_ops env1 ops)"

text \<open>The number of \<open>Extend\<close> calls for an agent in a sequence.\<close>

definition extends_of :: "aid \<Rightarrow> op list \<Rightarrow> nat" where
  "extends_of a_id ops = length (filter (\<lambda>c. case c of Extend b i \<Rightarrow> b = a_id | Observe b \<Rightarrow> False) ops)"

text \<open>The number of \<open>Observe\<close> calls for an agent in a sequence.\<close>

definition observes_of :: "aid \<Rightarrow> op list \<Rightarrow> nat" where
  "observes_of a_id ops = length (filter (\<lambda>c. case c of Extend b i \<Rightarrow> False | Observe b \<Rightarrow> b = a_id) ops)"

text \<open>
  How often a track for \<open>len\<close> intermediate goals has been finished after \<open>m\<close>
  \<open>Extend\<close> calls: once from call number \<open>len\<close> on, and never when there has been
  no call.
\<close>

definition reg_count :: "nat \<Rightarrow> nat \<Rightarrow> nat" where
  "reg_count len m = (if 0 < m \<and> len \<le> m then 1 else 0)"

text \<open>
  The environment that \<open>n\<close> passes of the rollout loop leave, the reward items of
  pass number \<open>k\<close> (from 0) and its \<^verbatim>\<open>dones["__all__"]\<close>, and an agent's reward
  in a dictionary given by its items (0 when the agent has none).
\<close>

primrec env_after :: "('o, 'c, 'b) externals \<Rightarrow> nat \<Rightarrow> ('o, 'b) env \<Rightarrow> ('o, 'b) env" where
  "env_after X 0 env = env"
| "env_after X (Suc n) env = env_after X n (snd (snd (tick X env)))"

definition tick_rew :: "('o, 'c, 'b) externals \<Rightarrow> ('o, 'b) env \<Rightarrow> nat \<Rightarrow> (aid \<times> real) list" where
  "tick_rew X env k = fst (tick X (env_after X k env))"

definition tick_done :: "('o, 'c, 'b) externals \<Rightarrow> ('o, 'b) env \<Rightarrow> nat \<Rightarrow> bool" where
  "tick_done X env k = fst (snd (tick X (env_after X k env)))"

definition rew_of :: "(aid \<times> real) list \<Rightarrow> aid \<Rightarrow> real" where
  "rew_of rew a_id = sum_list (map snd (filter (\<lambda>kv. fst kv = a_id) rew))"

subsection \<open>Example inputs\<close>

text \<open>
  An intersection of width 2 and length 10. The base class's \<^verbatim>\<open>add_vehicle\<close> puts
  the vehicle at \<open>(3, 0)\<close> on road \<^verbatim>\<open>traffic_signal_0\<close>; the base environment counts
  its steps in \<open>base\<close>, pays every agent it is given an action for a reward of 1
  per step and reports done from its second step on.
\<close>

definition demo_agent :: "goal list \<Rightarrow> agent" where
  "demo_agent gs =
     \<lparr>position = (3, 0), speed = 1, orientation = 0, road_name = ''traffic_signal_0'',
      intermediate_goals = gs, track_point = 0, previous_start_point = PyNone,
      track = [], registered = []\<rparr>"

definition demo_empty :: "(unit, nat) env" where
  "demo_empty =
     \<lparr>width = 2, length_road = 10, agent_ids = [], agents = Map.empty,
      curr_actions = Map.empty, prev_state = [], base = 0\<rparr>"

definition demo_super_add_vehicle ::
  "aid \<Rightarrow> goal list \<Rightarrow> (unit, nat) env \<Rightarrow> bool \<times> (unit, nat) env" where
  "demo_super_add_vehicle a_id gs env =
     (True, env\<lparr>agent_ids := agent_ids env @ [a_id],
               agents := (agents env)(a_id \<mapsto> demo_agent gs)\<rparr>)"

definition demo_X :: "(unit, unit, nat) externals" where
  "demo_X =
     \<lparr>super_get_state_single_agent = (\<lambda>env a_id. ((), env)),
      accln_control_act = (\<lambda>obs. ()),
      super_step = (\<lambda>actions env.
        (map (\<lambda>(a_id, c). (a_id, 1)) actions, 1 \<le> base env, env\<lparr>base := base env + 1\<rparr>))\<rparr>"

definition demo_dynamics :: "agent \<Rightarrow> real list \<Rightarrow> real list \<Rightarrow> real list" where
  "demo_dynamics ag s a = map (\<lambda>v. v + hd a) s"

text \<open>One agent with three intermediate goals, and two agents with one and two.\<close>

definition demo_goals :: "goal list" where
  "demo_goals = [((1, 0), []), ((0, 1), []), ((0, 3), [])]"

definition demo_env :: "(unit, nat) env" where
  "demo_env =
     (case add_vehicle (demo_super_add_vehicle ''agent_0'' demo_goals) ''agent_0'' demo_empty of
        Inr (r, env) \<Rightarrow> env
      | Inl e \<Rightarrow> demo_empty)"

definition demo_env2 :: "(unit, nat) env" where
  "demo_env2 =
     (case add_vehicle (demo_super_add_vehicle ''agent_0'' [((0, 3), [])]) ''agent_0'' demo_empty of
        Inr (r, env) \<Rightarrow>
          (case add_vehicle (demo_super_add_vehicle ''agent_1'' [((0, 1), []), ((0, 3), [])])
                  ''agent_1'' env of
             Inr (r1, env1) \<Rightarrow> env1
           | Inl e \<Rightarrow> demo_empty)
      | Inl e \<Rightarrow> demo_empty)"

text \<open>
  One agent with a single intermediate goal, and one agent on road
  \<^verbatim>\<open>traffic_signal_1\<close>, added at \<open>(0, 3)\<close> with two intermediate goals, as
  \<^verbatim>\<open>add_vehicle\<close> leaves it.
\<close>

definition demo_env1 :: "(unit, nat) env" where
  "demo_env1 =
     (case add_vehicle (demo_super_add_vehicle ''agent_0'' [((0, 3), [])]) ''agent_0'' demo_empty of
        Inr (r, env) \<Rightarrow> env
      | Inl e \<Rightarrow> demo_empty)"

definition demo_env_lr :: "(unit, nat) env" where
  "demo_env_lr =
     \<lparr>width = 2, length_road = 10, agent_ids = [''agent_0''],
      agents = [''agent_0'' \<mapsto>
        \<lparr>position = (0, 3), speed = 1, orientation = 0, road_name = ''traffic_signal_1'',
         intermediate_goals = [((0, 1), []), ((3, 0), [])], track_point = 0,
         previous_start_point = Val (0, 3), track = [Val (0, 11), Val (0, 3)],
         registered = []\<rparr>],
      curr_actions = Map.empty, prev_state = [], base = 0\<rparr>"

section \<open>Properties\<close>

lemma np_arange_grid:
  "np_arange (- 0.75) 0.76 0.25 = [- 0.75, - 0.5, - 0.25, 0, 0.25, 0.5, 0.75]"
proof -
  have c: "nat \<lceil>(0.76 - (- 0.75)) / (0.25 :: real)\<rceil> = 7"
    by (simp add: ceiling_eq_iff)
  have u: "[0 ..< 7] = [0, 1, 2, 3, 4, 5, 6 :: nat]"
    by (simp add: upt_rec)
  show ?thesis
    unfolding np_arange_def c u by simp
qed

lemma np_arange_accln:
  "np_arange (- 1.5) 1.75 0.25 =
     [- 1.5, - 1.25, - 1, - 0.75, - 0.5, - 0.25, 0, 0.25, 0.5, 0.75, 1, 1.25, 1.5]"
proof -
  have c: "nat \<lceil>(1.75 - (- 1.5)) / (0.25 :: real)\<rceil> = 13"
    by (simp add: ceiling_eq_iff)
  have u: "[0 ..< 13] = [0, 1, 2, 3, 4, 5, 6, 7, 8, 9, 10, 11, 12 :: nat]"
    by (simp add: upt_rec)
  show ?thesis
    unfolding np_arange_def c u by simp
qed

lemma length_actions_list: "length actions_list = 49"
  unfolding actions_list_def np_arange_grid by simp

lemma length_accln_control_actions_list: "length accln_control_actions_list = 13"
  unfolding accln_control_actions_list_def np_arange_accln by simp

lemma py_index_nonneg: "0 \<le> i \<Longrightarrow> i < int (length xs) \<Longrightarrow> py_index xs i = Some (nat i)"
  by (simp add: py_index_def)

lemma py_index_minus_one: "xs \<noteq> [] \<Longrightarrow> py_index xs (- 1) = Some (length xs - 1)"
  by (cases xs) (simp_all add: py_index_def)

lemma py_index_less: "py_index xs i = Some j \<Longrightarrow> j < length xs"
  by (auto simp: py_index_def Let_def split: if_splits)

lemma actions_list_0: "actions_list ! 0 = (- 0.75, - 0.75)"
  unfolding actions_list_def np_arange_grid by simp

lemma actions_list_24: "actions_list ! 24 = (0, 0)"
  unfolding actions_list_def np_arange_grid by simp

lemma actions_list_48: "actions_list ! 48 = (0.75, 0.75)"
  unfolding actions_list_def np_arange_grid by simp

lemma demo_env_eq:
  "demo_env =
     \<lparr>width = 2, length_road = 10, agent_ids = [''agent_0''],
      agents = [''agent_0'' \<mapsto>
        \<lparr>position = (3, 0), speed = 1, orientation = 0, road_name = ''traffic_signal_0'',
         intermediate_goals = [((1, 0), []), ((0, 1), []), ((0, 3), [])], track_point = 0,
         previous_start_point = Val (3, 0), track = [Val (11, 0), Val (3, 0)],
         registered = []\<rparr>],
      curr_actions = Map.empty, prev_state = [], base = 0\<rparr>"
  by (simp add: demo_env_def add_vehicle_def demo_super_add_vehicle_def demo_empty_def
        demo_agent_def demo_goals_def get_dummy_point_def)

lemma add_vehicle_fresh:
  assumes "add_vehicle super_add a_id env0 = Inr (r, env)"
  shows "\<exists>ag. agents env a_id = Some ag \<and> track_point ag = 0
           \<and> previous_start_point ag = Val (position ag)
           \<and> track ag = [get_dummy_point (width env) (length_road env) (position ag), Val (position ag)]"
  using assms
  by (auto simp: add_vehicle_def split: prod.splits option.splits)

lemma step_agent_Inr:
  assumes "step_agent env a_id action = Inr (c, env')"
  shows "\<exists>ag j k ag'. agents env a_id = Some ag
    \<and> py_index (intermediate_goals ag) (track_point ag - 1) = Some j
    \<and> py_index actions_list action = Some k
    \<and> (c \<longleftrightarrow> length (track ag) + 1 = length (intermediate_goals ag) + 2)
    \<and> env' = env\<lparr>agents := (agents env)(a_id \<mapsto> ag')\<rparr>
    \<and> track_point ag' = track_point ag
    \<and> previous_start_point ag' = GoalView j
    \<and> intermediate_goals ag' = (intermediate_goals ag)
         [j := ((fst (fst (intermediate_goals ag ! j)) + fst (actions_list ! k) * width env / 2,
                 snd (fst (intermediate_goals ag ! j)) + snd (actions_list ! k) * width env / 2),
                snd (intermediate_goals ag ! j))]
    \<and> track ag' = track ag @ [GoalView j] @
         (if c then [get_dummy_point (width env) (length_road env)
              (fst (fst (intermediate_goals ag ! j)) + fst (actions_list ! k) * width env / 2,
               snd (fst (intermediate_goals ag ! j)) + snd (actions_list ! k) * width env / 2)]
          else [])
    \<and> length (registered ag') = length (registered ag) + (if c then 1 else 0)"
proof -
  from assms obtain ag where ag: "agents env a_id = Some ag"
    by (auto simp: step_agent_def split: option.splits)
  from assms ag obtain j where j: "py_index (intermediate_goals ag) (track_point ag - 1) = Some j"
    by (auto simp: step_agent_def split: option.splits)
  from assms ag j obtain k where k: "py_index actions_list action = Some k"
    by (auto simp: step_agent_def split: option.splits)
  show ?thesis
  proof (cases "length (track ag) + 1 = length (intermediate_goals ag) + 2")
    case True
    with assms ag j k show ?thesis
      by (simp add: step_agent_def Let_def split: option.splits) force
  next
    case False
    with assms ag j k show ?thesis
      by (simp add: step_agent_def Let_def) force
  qed
qed

lemma get_state_single_agent_Inr:
  assumes "get_state_single_agent env a_id = Inr (ob, env')"
  shows "\<exists>ag. agents env a_id = Some ag
    \<and> (if int (length (intermediate_goals ag)) \<le> track_point ag then ob = None \<and> env' = env
        else ob \<noteq> None
           \<and> env' = env\<lparr>agents := (agents env)(a_id \<mapsto> ag\<lparr>track_point := track_point ag + 1\<rparr>)\<rparr>)"
  using assms
  by (auto simp: get_state_single_agent_def Let_def split: option.splits if_splits)

lemma run_ops_track:
  assumes "run_ops env ops = Inr env'" and "agents env a_id = Some ag"
    and "length (track ag) = m + 2 + reg_count (length (intermediate_goals ag)) m"
  shows "\<exists>ag'. agents env' a_id = Some ag'
    \<and> length (intermediate_goals ag') = length (intermediate_goals ag)
    \<and> length (track ag') = (m + extends_of a_id ops) + 2
         + reg_count (length (intermediate_goals ag)) (m + extends_of a_id ops)
    \<and> length (registered ag') + reg_count (length (intermediate_goals ag)) m
        = length (registered ag)
          + reg_count (length (intermediate_goals ag)) (m + extends_of a_id ops)"
  using assms
proof (induction ops arbitrary: env ag m)
  case Nil
  then show ?case by (simp add: extends_of_def)
next
  case (Cons c ops)
  show ?case
  proof (cases c)
    case (Extend b i)
    from Cons.prems(1) Extend obtain d env1 where
      s: "step_agent env b i = Inr (d, env1)" and r: "run_ops env1 ops = Inr env'"
      by (auto split: sum.splits)
    show ?thesis
    proof (cases "b = a_id")
      case True
      from step_agent_Inr [OF s] True Cons.prems(2) obtain j ag1 where
        j: "py_index (intermediate_goals ag) (track_point ag - 1) = Some j"
        and d: "d \<longleftrightarrow> length (track ag) + 1 = length (intermediate_goals ag) + 2"
        and e: "env1 = env\<lparr>agents := (agents env)(a_id \<mapsto> ag1)\<rparr>"
        and g: "length (intermediate_goals ag1) = length (intermediate_goals ag)"
        and t: "length (track ag1) = length (track ag) + 1 + (if d then 1 else 0)"
        and rg: "length (registered ag1) = length (registered ag) + (if d then 1 else 0)"
        by auto
      define n where "n = length (intermediate_goals ag)"
      from py_index_less [OF j] have pos: "0 < n" unfolding n_def by arith
      have a1: "agents env1 a_id = Some ag1" using e by simp
      have tl: "length (track ag) = m + 2 + reg_count n m"
        using Cons.prems(3) unfolding n_def .
      have dn: "d \<longleftrightarrow> length (track ag) + 1 = n + 2"
        using d unfolding n_def .
      have t0: "length (track ag1) = Suc m + 2 + reg_count n (Suc m)"
        using t dn pos tl by (auto simp: reg_count_def split: if_splits)
      have t1: "length (track ag1) = Suc m + 2 + reg_count (length (intermediate_goals ag1)) (Suc m)"
        using t0 g unfolding n_def by simp
      have rg0: "length (registered ag1) + reg_count n m
                 = length (registered ag) + reg_count n (Suc m)"
        using rg dn pos tl by (auto simp: reg_count_def split: if_splits)
      have rg1: "length (registered ag1) + reg_count (length (intermediate_goals ag)) m
                 = length (registered ag) + reg_count (length (intermediate_goals ag)) (Suc m)"
        using rg0 unfolding n_def .
      have ex: "extends_of a_id (c # ops) = Suc (extends_of a_id ops)"
        using Extend True by (simp add: extends_of_def)
      from Cons.IH [OF r a1 t1] obtain ag' where
        "agents env' a_id = Some ag'"
        "length (intermediate_goals ag') = length (intermediate_goals ag1)"
        "length (track ag') = (Suc m + extends_of a_id ops) + 2
           + reg_count (length (intermediate_goals ag1)) (Suc m + extends_of a_id ops)"
        "length (registered ag') + reg_count (length (intermediate_goals ag1)) (Suc m)
           = length (registered ag1)
             + reg_count (length (intermediate_goals ag1)) (Suc m + extends_of a_id ops)"
        by blast
      with g rg1 ex show ?thesis by simp
    next
      case False
      from step_agent_Inr [OF s] obtain ag1 where
        e: "env1 = env\<lparr>agents := (agents env)(b \<mapsto> ag1)\<rparr>" by blast
      have a1: "agents env1 a_id = Some ag" using e False Cons.prems(2) by simp
      have ex: "extends_of a_id (c # ops) = extends_of a_id ops"
        using Extend False by (simp add: extends_of_def)
      from Cons.IH [OF r a1 Cons.prems(3)] ex show ?thesis by simp
    qed
  next
    case (Observe b)
    from Cons.prems(1) Observe obtain ob env1 where
      s: "get_state_single_agent env b = Inr (ob, env1)" and r: "run_ops env1 ops = Inr env'"
      by (auto split: sum.splits)
    from get_state_single_agent_Inr [OF s] Cons.prems(2) obtain ag1 where
      a1: "agents env1 a_id = Some ag1"
      and g: "intermediate_goals ag1 = intermediate_goals ag"
      and t: "track ag1 = track ag" and rg: "registered ag1 = registered ag"
      by (cases "b = a_id") (auto split: if_splits)
    have ex: "extends_of a_id (c # ops) = extends_of a_id ops"
      using Observe by (simp add: extends_of_def)
    from Cons.IH [OF r a1, of m] Cons.prems(3) g t rg ex show ?thesis by simp
  qed
qed


lemma demo_env2_eq:
  "demo_env2 =
     \<lparr>width = 2, length_road = 10, agent_ids = [''agent_0'', ''agent_1''],
      agents = [''agent_0'' \<mapsto>
        \<lparr>position = (3, 0), speed = 1, orientation = 0, road_name = ''traffic_signal_0'',
         intermediate_goals = [((0, 3), [])], track_point = 0,
         previous_start_point = Val (3, 0), track = [Val (11, 0), Val (3, 0)],
         registered = []\<rparr>,
        ''agent_1'' \<mapsto>
        \<lparr>position = (3, 0), speed = 1, orientation = 0, road_name = ''traffic_signal_0'',
         intermediate_goals = [((0, 1), []), ((0, 3), [])], track_point = 0,
         previous_start_point = Val (3, 0), track = [Val (11, 0), Val (3, 0)],
         registered = []\<rparr>],
      curr_actions = Map.empty, prev_state = [], base = 0\<rparr>"
  by (simp add: demo_env2_def add_vehicle_def demo_super_add_vehicle_def demo_empty_def
        demo_agent_def get_dummy_point_def)

lemma step_loop_flag:
  assumes "step_loop env actions c0 = Inr (c, env1)" and "distinct (map fst actions)"
  shows "(c \<longleftrightarrow> c0 \<or> (\<exists>(a_id, action) \<in> set actions. \<exists>ag. agents env a_id = Some ag
            \<and> length (track ag) + 1 = length (intermediate_goals ag) + 2))
       \<and> (\<forall>b. b \<notin> fst ` set actions \<longrightarrow> agents env1 b = agents env b)"
proof -
  define P where "P = (\<lambda>m :: aid \<rightharpoonup> agent. \<lambda>a_id. \<exists>ag. m a_id = Some ag
            \<and> length (track ag) + 1 = length (intermediate_goals ag) + 2)"
  have "(c \<longleftrightarrow> c0 \<or> (\<exists>x \<in> set actions. P (agents env) (fst x)))
       \<and> (\<forall>b. b \<notin> fst ` set actions \<longrightarrow> agents env1 b = agents env b)"
    using assms
  proof (induction actions arbitrary: env c0)
    case Nil
    then show ?case by simp
  next
    case (Cons x actions)
    obtain a i where x: "x = (a, i)" by (cases x)
    from Cons.prems(1) x obtain d env' where
      s: "step_agent env a i = Inr (d, env')"
      and r: "step_loop env' actions (c0 \<or> d) = Inr (c, env1)"
      by (auto split: sum.splits)
    from step_agent_Inr [OF s] obtain ag ag' where
      ag: "agents env a = Some ag"
      and d: "d \<longleftrightarrow> length (track ag) + 1 = length (intermediate_goals ag) + 2"
      and e: "env' = env\<lparr>agents := (agents env)(a \<mapsto> ag')\<rparr>"
      by blast
    have dP: "d \<longleftrightarrow> P (agents env) a"
      unfolding P_def using ag d by simp
    from Cons.prems(2) x have dist: "distinct (map fst actions)"
      and na: "a \<notin> fst ` set actions"
      by auto
    have same: "P (agents env') (fst y) = P (agents env) (fst y)" if "y \<in> set actions" for y
    proof -
      from that na have "fst y \<noteq> a" by auto
      then have "agents env' (fst y) = agents env (fst y)" using e by simp
      then show ?thesis unfolding P_def by simp
    qed
    from Cons.IH [OF r dist] have
      c: "c \<longleftrightarrow> (c0 \<or> d) \<or> (\<exists>y \<in> set actions. P (agents env') (fst y))"
      and o: "\<forall>b. b \<notin> fst ` set actions \<longrightarrow> agents env1 b = agents env' b"
      by blast+
    have "(\<exists>y \<in> set actions. P (agents env') (fst y)) \<longleftrightarrow> (\<exists>y \<in> set actions. P (agents env) (fst y))"
      using same by blast
    with c dP x have "c \<longleftrightarrow> c0 \<or> (\<exists>y \<in> set (x # actions). P (agents env) (fst y))"
      by auto
    moreover have "\<forall>b. b \<notin> fst ` set (x # actions) \<longrightarrow> agents env1 b = agents env b"
    proof (intro allI impI)
      fix b assume b: "b \<notin> fst ` set (x # actions)"
      then have "b \<noteq> a" and "b \<notin> fst ` set actions" using x by auto
      with o e show "agents env1 b = agents env b" by simp
    qed
    ultimately show ?case by blast
  qed
  then show ?thesis
    unfolding P_def by (simp add: case_prod_beta)
qed

lemma py_index_None_iff:
  "py_index xs i = None \<longleftrightarrow> i < - int (length xs) \<or> int (length xs) \<le> i"
  by (auto simp: py_index_def Let_def)

lemma step_loop_fails:
  assumes "(a_id, action) \<in> set actions" and "py_index actions_list action = None"
  shows "\<exists>e. step_loop env actions c = Inl e"
  using assms(1)
proof (induction actions arbitrary: env c)
  case Nil
  then show ?case by simp
next
  case (Cons x actions)
  obtain b j where x: "x = (b, j)" by (cases x)
  show ?case
  proof (cases "step_agent env b j")
    case (Inl e)
    then show ?thesis using x by simp
  next
    case (Inr p)
    obtain d env' where p: "p = (d, env')" by (cases p)
    from step_agent_Inr [OF Inr [unfolded p]] obtain k where
      k: "py_index actions_list j = Some k" by blast
    with assms(2) have "(b, j) \<noteq> (a_id, action)" by auto
    with Cons.prems x have "(a_id, action) \<in> set actions" by auto
    from Cons.IH [OF this] show ?thesis using x Inr p by simp
  qed
qed

lemmas demo_eval = step_agent_def get_state_single_agent_def py_index_def
  actions_list_24 length_actions_list get_dummy_point_def torch_cat_def deref_def Let_def


lemmas demo_eval0 = step_agent_def get_state_single_agent_def py_index_def
  actions_list_0 length_actions_list get_dummy_point_def torch_cat_def deref_def Let_def

lemmas demo_roll = rollout.simps tick_def get_internal_state_def demo_X_def init_rewards_def
  get_state_def

subsection \<open>The action catalogs\<close>

text \<open>
  C3, as stated, fails: \<^verbatim>\<open>np.arange(-0.75, 0.76, 0.25)\<close> has the seven values
  \<open>-0.75, -0.5, \<dots>, 0.75\<close>, so the full-offset catalog is a 7 by 7 grid and the
  action space is not \<^verbatim>\<open>Discrete(25)\<close>.
\<close>

theorem action_space_is_not_25: "get_action_space \<noteq> 25"
  unfolding get_action_space_def actions_list_def np_arange_grid by simp

text \<open>
  C3, amended: the full-offset catalog is the Cartesian grid of the offsets with step
  0.25 over \<open>[-0.75, 0.75]\<close> on both axes, first axis slowest, which has 49 entries, and
  the action space is \<^verbatim>\<open>Discrete(49)\<close>; the left/right catalog is
  \<open>-0.5, 0, 0.5\<close> and its action space is \<^verbatim>\<open>Discrete(3)\<close>.
\<close>

theorem action_catalogs:
  "actions_list =
     List.product [- 0.75, - 0.5, - 0.25, 0, 0.25, 0.5, 0.75]
                  [- 0.75, - 0.5, - 0.25, 0, 0.25, 0.5, 0.75]
   \<and> get_action_space = 49
   \<and> lr_actions_list = [- 0.5, 0, 0.5]
   \<and> lr_get_action_space = 3"
  unfolding get_action_space_def actions_list_def np_arange_grid
    lr_actions_list_def lr_get_action_space_def
  by simp

subsection \<open>The dummy point\<close>

text \<open>
  C6: when exactly one axis of the point \<open>(x, y)\<close> lies outside \<open>[-width/2, width/2]\<close>,
  \<^verbatim>\<open>get_dummy_point\<close> returns \<open>(length + width/2, y)\<close> for \<open>x > width/2\<close>,
  \<open>(-(length + width/2), y)\<close> for \<open>x < -width/2\<close>, \<open>(x, length + width/2)\<close> for
  \<open>y > width/2\<close> and \<open>(x, -(length + width/2))\<close> for \<open>y < -width/2\<close>, whatever the
  other coordinate is. The function reads its arguments only: it is a function of
  the width, the length and the point.
\<close>

theorem get_dummy_point_cases:
  assumes "(x > w / 2 \<or> x < - w / 2) \<noteq> (y > w / 2 \<or> y < - w / 2)"
  shows "(x > w / 2 \<longrightarrow> get_dummy_point w l (x, y) = Val (l + w / 2, y))
       \<and> (x < - w / 2 \<longrightarrow> get_dummy_point w l (x, y) = Val (- (l + w / 2), y))
       \<and> (y > w / 2 \<longrightarrow> get_dummy_point w l (x, y) = Val (x, l + w / 2))
       \<and> (y < - w / 2 \<longrightarrow> get_dummy_point w l (x, y) = Val (x, - (l + w / 2)))"
  using assms unfolding get_dummy_point_def by auto

theorem get_dummy_point_cases_witness:
  "get_dummy_point 2 10 (3, 0) = Val (11, 0)
   \<and> get_dummy_point 2 10 (- 3, 1) = Val (- 11, 1)
   \<and> get_dummy_point 2 10 (0.5, 3) = Val (0.5, 11)
   \<and> get_dummy_point 2 10 (0, - 3) = Val (0, - 11)"
  using get_dummy_point_cases [where x = 3 and w = 2 and y = 0 and l = 10]
    get_dummy_point_cases [where x = "- 3" and w = 2 and y = 1 and l = 10]
    get_dummy_point_cases [where x = "0.5" and w = 2 and y = 3 and l = 10]
    get_dummy_point_cases [where x = 0 and w = 2 and y = "- 3" and l = 10]
  by simp

subsection \<open>The nominal trajectory\<close>

lemma nominal_loop_eq:
  "nominal_states \<noteq> [] \<Longrightarrow>
   nominal_loop d a n (nominal_states, nominal_actions) =
     (butlast nominal_states @ map (\<lambda>k. ((\<lambda>s. d s a) ^^ k) (last nominal_states)) [0 ..< Suc n],
      nominal_actions @ replicate n a)"
proof (induction n arbitrary: nominal_states nominal_actions)
  case 0
  then show ?case by simp
next
  case (Suc n)
  have u: "[0 ..< Suc (Suc n)] = 0 # map Suc [0 ..< Suc n]"
    by (simp only: map_Suc_upt upt_conv_Cons [of 0 "Suc (Suc n)"] zero_less_Suc)
  have "nominal_loop d a (Suc n) (nominal_states, nominal_actions) =
        nominal_loop d a n (nominal_states @ [d (last nominal_states) a], nominal_actions @ [a])"
    by simp
  also have "\<dots> = (nominal_states @ map (\<lambda>k. ((\<lambda>s. d s a) ^^ k) (d (last nominal_states) a)) [0 ..< Suc n],
                   (nominal_actions @ [a]) @ replicate n a)"
    by (subst Suc.IH) simp_all
  also have "map (\<lambda>k. ((\<lambda>s. d s a) ^^ k) (d (last nominal_states) a)) [0 ..< Suc n] =
             map (\<lambda>k. ((\<lambda>s. d s a) ^^ Suc k) (last nominal_states)) [0 ..< Suc n]"
    by (simp only: funpow_Suc_right o_apply)
  also have "nominal_states @ map (\<lambda>k. ((\<lambda>s. d s a) ^^ Suc k) (last nominal_states)) [0 ..< Suc n] =
             butlast nominal_states @ map (\<lambda>k. ((\<lambda>s. d s a) ^^ k) (last nominal_states)) [0 ..< Suc (Suc n)]"
    using Suc.prems unfolding u by (simp add: o_def del: upt_Suc)
  also have "(nominal_actions @ [a]) @ replicate n a = nominal_actions @ replicate (Suc n) a"
    by simp
  finally show ?case .
qed

text \<open>
  C8: for an agent of the environment, a discrete action index inside the catalog
  \<^verbatim>\<open>accln_control_actions_list\<close> and a positive \<^verbatim>\<open>timesteps\<close>,
  \<^verbatim>\<open>transform_state_action_single_agent\<close> returns a zero 4-vector as goal state, a
  zero 4-vector as start state, and the extras \<^verbatim>\<open>(nominal_states, nominal_actions)\<close>:
  \<^verbatim>\<open>nominal_states\<close> are the \<open>timesteps + 1\<close> states \<open>f\<^sup>k (x, y, speed, orientation)\<close>,
  \<open>k = 0, \<dots>, timesteps\<close>, where \<open>f\<close> applies the agent's dynamics model with the
  selected action, and \<^verbatim>\<open>nominal_actions\<close> repeats the selected action
  \<open>timesteps + 1\<close> times. The only change of the environment is that the selected
  action is stored in \<^verbatim>\<open>curr_actions[a_id]\<close>.
\<close>

theorem transform_state_action_single_agent_result:
  assumes "agents env a_id = Some ag"
    and "0 \<le> action" and "action < int (length accln_control_actions_list)"
    and "0 < timesteps"
  shows "transform_state_action_single_agent dynamics env a_id action timesteps =
     Inr (([0, 0, 0, 0], [0, 0, 0, 0],
           map (\<lambda>k. ((\<lambda>s. dynamics ag s (accln_control_actions_list ! nat action)) ^^ k)
                   [fst (position ag), snd (position ag), speed ag, orientation ag])
               [0 ..< nat timesteps + 1],
           replicate (nat timesteps + 1) (accln_control_actions_list ! nat action)),
          env\<lparr>curr_actions := (curr_actions env)(a_id \<mapsto> accln_control_actions_list ! nat action)\<rparr>)"
  using assms
  by (simp add: transform_state_action_single_agent_def py_index_nonneg nominal_loop_eq Let_def
        del: upt_Suc)

theorem transform_state_action_single_agent_result_witness:
  "transform_state_action_single_agent demo_dynamics demo_env ''agent_0'' 0 2 =
     Inr (([0, 0, 0, 0], [0, 0, 0, 0],
           [[3, 0, 1, 0], [1.5, - 1.5, - 0.5, - 1.5], [0, - 3, - 2, - 3]],
           [[- 1.5], [- 1.5], [- 1.5]]),
          demo_env\<lparr>curr_actions := [''agent_0'' \<mapsto> [- 1.5]]\<rparr>)"
proof -
  have a: "agents demo_env ''agent_0'' =
           Some ((demo_agent demo_goals)\<lparr>track_point := 0, previous_start_point := Val (3, 0),
                   track := [Val (11, 0), Val (3, 0)]\<rparr>)"
    unfolding demo_env_eq by (simp add: demo_agent_def demo_goals_def)
  have n: "accln_control_actions_list ! nat 0 = [- 1.5]"
    unfolding accln_control_actions_list_def np_arange_accln by simp
  have u: "[0 ..< nat 2 + 1] = [0, 1, 2]"
    by (simp add: upt_rec)
  show ?thesis
    using transform_state_action_single_agent_result [OF a, of 0 2 demo_dynamics]
    unfolding n u
    by (simp add: length_accln_control_actions_list demo_agent_def demo_dynamics_def demo_env_eq
          numeral_2_eq_2)
qed

subsection \<open>Track length and registration\<close>

text \<open>
  C2, as stated, fails at the call that completes the track: with three intermediate
  goals, the third \<open>Extend\<close> call also appends the trailing dummy point, so the track
  has 6 entries and not 3 + 2.
\<close>

theorem track_length_is_not_N_plus_2:
  "\<exists>env' ag'. run_ops demo_env
      [Observe ''agent_0'', Extend ''agent_0'' 24, Observe ''agent_0'', Extend ''agent_0'' 24,
       Observe ''agent_0'', Extend ''agent_0'' 24] = Inr env'
    \<and> extends_of ''agent_0''
      [Observe ''agent_0'', Extend ''agent_0'' 24, Observe ''agent_0'', Extend ''agent_0'' 24,
       Observe ''agent_0'', Extend ''agent_0'' 24] = 3
    \<and> agents env' ''agent_0'' = Some ag' \<and> length (track ag') \<noteq> 3 + 2"
  unfolding demo_env_eq
  by (simp add: demo_eval extends_of_def)

text \<open>
  C2, amended: for an agent fresh from \<^verbatim>\<open>add_vehicle\<close> and any sequence of calls that
  raises no exception and extends the agent's track \<open>N\<close> times (with valid actions,
  whatever observations and calls for other agents come in between), the track has
  length \<open>N + 2\<close> while \<open>N\<close> is below the number of intermediate goals and \<open>N + 3\<close>
  from then on, the trailing dummy point being appended by call number
  \<^verbatim>\<open>len(intermediate_goals)\<close>; \<^verbatim>\<open>register_track\<close> has been called once if
  \<open>N\<close> has reached \<^verbatim>\<open>len(intermediate_goals)\<close> and not at all before, so it is
  called exactly once, in call number \<^verbatim>\<open>len(intermediate_goals)\<close>.
\<close>

theorem track_length_and_registration:
  assumes "add_vehicle super_add a_id env0 = Inr (r, env)" and "run_ops env ops = Inr env'"
  shows "\<exists>ag ag'. agents env a_id = Some ag \<and> agents env' a_id = Some ag'
    \<and> length (track ag') = extends_of a_id ops + 2
         + (if 0 < extends_of a_id ops \<and> length (intermediate_goals ag) \<le> extends_of a_id ops
            then 1 else 0)
    \<and> length (registered ag') = length (registered ag)
         + (if 0 < extends_of a_id ops \<and> length (intermediate_goals ag) \<le> extends_of a_id ops
            then 1 else 0)"
proof -
  from add_vehicle_fresh [OF assms(1)] obtain ag where
    ag: "agents env a_id = Some ag" and t: "length (track ag) = 2"
    by auto
  have "length (track ag) = 0 + 2 + reg_count (length (intermediate_goals ag)) 0"
    using t by (simp add: reg_count_def)
  from run_ops_track [OF assms(2) ag this] ag show ?thesis
    by (auto simp: reg_count_def)
qed

theorem track_length_and_registration_witness:
  "\<exists>env' ag'. run_ops demo_env
      [Observe ''agent_0'', Extend ''agent_0'' 24, Observe ''agent_0'', Extend ''agent_0'' 24,
       Observe ''agent_0'', Extend ''agent_0'' 0] = Inr env'
    \<and> agents env' ''agent_0'' = Some ag' \<and> length (track ag') = 6
    \<and> length (registered ag') = 1"
proof -
  let ?ops = "[Observe ''agent_0'', Extend ''agent_0'' 24, Observe ''agent_0'',
               Extend ''agent_0'' 24, Observe ''agent_0'', Extend ''agent_0'' 0]"
  have a: "add_vehicle (demo_super_add_vehicle ''agent_0'' demo_goals) ''agent_0'' demo_empty
           = Inr (True, demo_env)"
    by (simp add: demo_env_def add_vehicle_def demo_super_add_vehicle_def)
  have "\<exists>env'. run_ops demo_env ?ops = Inr env'"
    unfolding demo_env_eq by (simp add: demo_eval actions_list_0)
  then obtain env' where r: "run_ops demo_env ?ops = Inr env'" ..
  have g: "agents demo_env ''agent_0'' = Some ag \<Longrightarrow> length (intermediate_goals ag) = 3
             \<and> registered ag = []" for ag
    unfolding demo_env_eq by auto
  have e: "extends_of ''agent_0'' ?ops = 3"
    by (simp add: extends_of_def)
  from track_length_and_registration [OF a r] g e r show ?thesis
    by auto
qed

subsection \<open>The goal an extension reads\<close>

lemma demo_env1_eq:
  "demo_env1 =
     \<lparr>width = 2, length_road = 10, agent_ids = [''agent_0''],
      agents = [''agent_0'' \<mapsto>
        \<lparr>position = (3, 0), speed = 1, orientation = 0, road_name = ''traffic_signal_0'',
         intermediate_goals = [((0, 3), [])], track_point = 0,
         previous_start_point = Val (3, 0), track = [Val (11, 0), Val (3, 0)],
         registered = []\<rparr>],
      curr_actions = Map.empty, prev_state = [], base = 0\<rparr>"
  by (simp add: demo_env1_def add_vehicle_def demo_super_add_vehicle_def demo_empty_def
        demo_agent_def get_dummy_point_def)

lemma run_ops_track_point:
  assumes "run_ops env ops = Inr env1" and "agents env a_id = Some ag"
    and "track_point ag = int t" and "t \<le> length (intermediate_goals ag)"
  shows "\<exists>ag1. agents env1 a_id = Some ag1
    \<and> length (intermediate_goals ag1) = length (intermediate_goals ag)
    \<and> track_point ag1 = int (min (t + observes_of a_id ops) (length (intermediate_goals ag)))"
  using assms
proof (induction ops arbitrary: env ag t)
  case Nil
  then show ?case by (simp add: observes_of_def)
next
  case (Cons c ops)
  show ?case
  proof (cases c)
    case (Extend b i)
    from Cons.prems(1) Extend obtain d env' where
      s: "step_agent env b i = Inr (d, env')" and r: "run_ops env' ops = Inr env1"
      by (auto split: sum.splits)
    have ob: "observes_of a_id (c # ops) = observes_of a_id ops"
      using Extend by (simp add: observes_of_def)
    from step_agent_Inr [OF s] obtain agb j k ag' where
      b: "agents env b = Some agb"
      and e: "env' = env\<lparr>agents := (agents env)(b \<mapsto> ag')\<rparr>"
      and tp: "track_point ag' = track_point agb"
      and g: "intermediate_goals ag' = (intermediate_goals agb)
         [j := ((fst (fst (intermediate_goals agb ! j)) + fst (actions_list ! k) * width env / 2,
                 snd (fst (intermediate_goals agb ! j)) + snd (actions_list ! k) * width env / 2),
                snd (intermediate_goals agb ! j))]"
      by blast
    show ?thesis
    proof (cases "b = a_id")
      case True
      with b Cons.prems(2) have ab: "agb = ag" by simp
      have a1: "agents env' a_id = Some ag'" using e True by simp
      have l: "length (intermediate_goals ag') = length (intermediate_goals ag)"
        unfolding g ab by simp
      from Cons.IH [OF r a1, of t] tp ab Cons.prems(3,4) l ob show ?thesis by simp
    next
      case False
      have a1: "agents env' a_id = Some ag" using e False Cons.prems(2) by simp
      from Cons.IH [OF r a1 Cons.prems(3,4)] ob show ?thesis by simp
    qed
  next
    case (Observe b)
    from Cons.prems(1) Observe obtain ob env' where
      s: "get_state_single_agent env b = Inr (ob, env')" and r: "run_ops env' ops = Inr env1"
      by (auto split: sum.splits)
    show ?thesis
    proof (cases "b = a_id")
      case True
      have obs: "observes_of a_id (c # ops) = Suc (observes_of a_id ops)"
        using Observe True by (simp add: observes_of_def)
      define n where "n = length (intermediate_goals ag)"
      show ?thesis
      proof (cases "t < n")
        case True
        with get_state_single_agent_Inr [OF s] \<open>b = a_id\<close> Cons.prems(2,3)
        have e: "env' = env\<lparr>agents := (agents env)(a_id \<mapsto> ag\<lparr>track_point := int t + 1\<rparr>)\<rparr>"
          unfolding n_def by (auto split: if_splits)
        let ?ag' = "ag\<lparr>track_point := int t + 1\<rparr>"
        have a1: "agents env' a_id = Some ?ag'" using e by simp
        have t1: "track_point ?ag' = int (Suc t)" by simp
        have t2: "Suc t \<le> length (intermediate_goals ?ag')" using True unfolding n_def by simp
        from Cons.IH [OF r a1 t1 t2] obs show ?thesis by simp
      next
        case False
        with Cons.prems(4) have tn: "t = n" unfolding n_def by simp
        with get_state_single_agent_Inr [OF s] \<open>b = a_id\<close> Cons.prems(2,3)
        have e: "env' = env"
          unfolding n_def by (auto split: if_splits)
        from Cons.IH [OF r [unfolded e] Cons.prems(2,3,4)] obs tn show ?thesis
          unfolding n_def by (auto simp: min_def split: if_splits)
      qed
    next
      case False
      have obs: "observes_of a_id (c # ops) = observes_of a_id ops"
        using Observe False by (simp add: observes_of_def)
      from get_state_single_agent_Inr [OF s] False Cons.prems(2)
      have a1: "agents env' a_id = Some ag"
        by (auto split: if_splits)
      from Cons.IH [OF r a1 Cons.prems(3,4)] obs show ?thesis by simp
    qed
  qed
qed

text \<open>
  C10, as stated, fails for an agent with a single intermediate goal: index -1 is then
  the first goal, and the extension gives the same track, the same registered track
  and the same goal values whether or not \<^verbatim>\<open>get_state_single_agent\<close> was called
  before it, so the pairing needs no observation read.
\<close>

theorem single_goal_pairing_needs_no_observation:
  "\<exists>env1 ob envo env2 ag1 ag2.
     step_agent demo_env1 ''agent_0'' 0 = Inr (True, env1)
     \<and> get_state_single_agent demo_env1 ''agent_0'' = Inr (Some ob, envo)
     \<and> step_agent envo ''agent_0'' 0 = Inr (True, env2)
     \<and> agents env1 ''agent_0'' = Some ag1 \<and> agents env2 ''agent_0'' = Some ag2
     \<and> previous_start_point ag1 = GoalView 0 \<and> previous_start_point ag2 = GoalView 0
     \<and> track ag1 = track ag2 \<and> registered ag1 = registered ag2
     \<and> intermediate_goals ag1 = intermediate_goals ag2"
  unfolding demo_env1_eq
  by (simp add: demo_eval0)

text \<open>
  C10, amended: an agent fresh from \<^verbatim>\<open>add_vehicle\<close> has \<^verbatim>\<open>track_point\<close> 0, and after
  any sequence of calls that raises nothing \<^verbatim>\<open>track_point\<close> is the number of
  \<^verbatim>\<open>get_state_single_agent\<close> calls for the agent, capped at
  \<^verbatim>\<open>len(intermediate_goals)\<close>: extensions never change it. Every extension reads
  \<^verbatim>\<open>intermediate_goals[track_point - 1]\<close>: the last goal (index -1) when no
  observation has been read, which is not the first goal when there are at least two
  goals, and goal number \<open>min(m, len) - 1\<close> after \<open>m \<ge> 1\<close> observation reads; the new
  track entry and \<^verbatim>\<open>previous_start_point\<close> are views of that goal, which now holds
  its point plus the deviation. So, for every extension but the one for the last goal,
  extension number \<open>e + 1\<close> reads goal \<open>e\<close> if and only if exactly \<open>e + 1\<close>
  observation reads came before it: one observation read has to precede each
  extension.
\<close>

theorem extension_reads_goal_by_observations:
  assumes "add_vehicle super_add a_id env0 = Inr (r, env)"
    and "run_ops env ops = Inr env1"
    and "step_agent env1 a_id action = Inr (c, env2)"
  shows "\<exists>ag ag1 ag2 j k. agents env a_id = Some ag \<and> agents env1 a_id = Some ag1
    \<and> agents env2 a_id = Some ag2
    \<and> track_point ag = 0
    \<and> track_point ag1 = int (min (observes_of a_id ops) (length (intermediate_goals ag)))
    \<and> track_point ag2 = track_point ag1
    \<and> py_index (intermediate_goals ag1) (track_point ag1 - 1) = Some j
    \<and> j = (if observes_of a_id ops = 0 then length (intermediate_goals ag) - 1
           else min (observes_of a_id ops) (length (intermediate_goals ag)) - 1)
    \<and> track ag2 ! length (track ag1) = GoalView j
    \<and> previous_start_point ag2 = GoalView j
    \<and> py_index actions_list action = Some k
    \<and> fst (intermediate_goals ag2 ! j) =
        (fst (fst (intermediate_goals ag1 ! j)) + fst (actions_list ! k) * width env1 / 2,
         snd (fst (intermediate_goals ag1 ! j)) + snd (actions_list ! k) * width env1 / 2)
    \<and> (observes_of a_id ops = 0 \<and> 2 \<le> length (intermediate_goals ag) \<longrightarrow> j \<noteq> 0)
    \<and> (Suc (extends_of a_id ops) < length (intermediate_goals ag) \<longrightarrow>
         (j = extends_of a_id ops \<longleftrightarrow> observes_of a_id ops = Suc (extends_of a_id ops)))"
proof -
  from add_vehicle_fresh [OF assms(1)] obtain ag where
    ag: "agents env a_id = Some ag" and tp: "track_point ag = 0"
    by auto
  define n where "n = length (intermediate_goals ag)"
  define m where "m = observes_of a_id ops"
  have tp0: "track_point ag = int 0" using tp by simp
  from run_ops_track_point [OF assms(2) ag tp0] obtain ag1 where
    ag1: "agents env1 a_id = Some ag1"
    and l1: "length (intermediate_goals ag1) = n"
    and tp1: "track_point ag1 = int (min m n)"
    unfolding n_def m_def by auto
  from step_agent_Inr [OF assms(3)] ag1 obtain j k ag2 where
    j: "py_index (intermediate_goals ag1) (track_point ag1 - 1) = Some j"
    and k: "py_index actions_list action = Some k"
    and e: "env2 = env1\<lparr>agents := (agents env1)(a_id \<mapsto> ag2)\<rparr>"
    and tp2: "track_point ag2 = track_point ag1"
    and p: "previous_start_point ag2 = GoalView j"
    and g: "intermediate_goals ag2 = (intermediate_goals ag1)
         [j := ((fst (fst (intermediate_goals ag1 ! j)) + fst (actions_list ! k) * width env1 / 2,
                 snd (fst (intermediate_goals ag1 ! j)) + snd (actions_list ! k) * width env1 / 2),
                snd (intermediate_goals ag1 ! j))]"
    and tr: "track ag2 ! length (track ag1) = GoalView j"
    by (auto simp: nth_append)
  have ag2: "agents env2 a_id = Some ag2" using e by simp
  from py_index_less [OF j] l1 have jn: "j < n" by simp
  have jv: "j = (if m = 0 then n - 1 else min m n - 1)"
    using j jn unfolding tp1 py_index_def Let_def l1
    by (auto split: if_splits)
  have gv: "fst (intermediate_goals ag2 ! j) =
        (fst (fst (intermediate_goals ag1 ! j)) + fst (actions_list ! k) * width env1 / 2,
         snd (fst (intermediate_goals ag1 ! j)) + snd (actions_list ! k) * width env1 / 2)"
    unfolding g using jn l1 by simp
  have c1: "m = 0 \<and> 2 \<le> n \<longrightarrow> j \<noteq> 0"
    using jv by auto
  have c2: "Suc (extends_of a_id ops) < n \<longrightarrow>
         (j = extends_of a_id ops \<longleftrightarrow> m = Suc (extends_of a_id ops))"
    using jv jn by (auto simp: min_def split: if_splits)
  from ag ag1 ag2 tp tp1 tp2 j jv tr p k gv c1 c2 show ?thesis
    unfolding n_def m_def
    apply (rule_tac x = ag in exI)
    apply (rule_tac x = ag1 in exI)
    apply (rule_tac x = ag2 in exI)
    apply (rule_tac x = j in exI)
    apply (rule_tac x = k in exI)
    apply (intro conjI; assumption)
    done
qed

theorem extension_reads_goal_by_observations_witness:
  "(\<exists>env2 ag2. step_agent demo_env ''agent_0'' 0 = Inr (False, env2)
      \<and> agents env2 ''agent_0'' = Some ag2
      \<and> previous_start_point ag2 = GoalView 2 \<and> track ag2 ! 2 = GoalView 2
      \<and> fst (intermediate_goals ag2 ! 2) = (- 0.75, 2.25))
   \<and> (\<exists>env1 env2 ag2.
        run_ops demo_env [Observe ''agent_0'', Extend ''agent_0'' 24, Observe ''agent_0'']
          = Inr env1
      \<and> step_agent env1 ''agent_0'' 0 = Inr (False, env2)
      \<and> agents env2 ''agent_0'' = Some ag2
      \<and> previous_start_point ag2 = GoalView 1)"
proof -
  let ?ops = "[Observe ''agent_0'', Extend ''agent_0'' 24, Observe ''agent_0'']"
  have a: "add_vehicle (demo_super_add_vehicle ''agent_0'' demo_goals) ''agent_0'' demo_empty
           = Inr (True, demo_env)"
    by (simp add: demo_env_def add_vehicle_def demo_super_add_vehicle_def)
  have g: "agents demo_env ''agent_0'' = Some ag \<Longrightarrow>
             intermediate_goals ag = demo_goals \<and> length (track ag) = 2" for ag
    unfolding demo_env_eq by (auto simp: demo_goals_def)
  have w: "width demo_env = 2"
    unfolding demo_env_eq by simp
  have k0: "py_index actions_list 0 = Some k \<Longrightarrow> k = 0" for k
    by (simp add: py_index_def length_actions_list)
  have r0: "run_ops demo_env [] = Inr demo_env"
    by simp
  have "\<exists>env2. step_agent demo_env ''agent_0'' 0 = Inr (False, env2)"
    unfolding demo_env_eq by (simp add: demo_eval0)
  then obtain env2 where s0: "step_agent demo_env ''agent_0'' 0 = Inr (False, env2)" ..
  from extension_reads_goal_by_observations [OF a r0 s0]
  obtain ag ag1 ag2 j k where
    "agents demo_env ''agent_0'' = Some ag" "agents demo_env ''agent_0'' = Some ag1"
    "agents env2 ''agent_0'' = Some ag2"
    "j = (if observes_of ''agent_0'' [] = 0 then length (intermediate_goals ag) - 1
           else min (observes_of ''agent_0'' []) (length (intermediate_goals ag)) - 1)"
    "track ag2 ! length (track ag1) = GoalView j" "previous_start_point ag2 = GoalView j"
    "py_index actions_list 0 = Some k"
    "fst (intermediate_goals ag2 ! j) =
        (fst (fst (intermediate_goals ag1 ! j)) + fst (actions_list ! k) * width demo_env / 2,
         snd (fst (intermediate_goals ag1 ! j)) + snd (actions_list ! k) * width demo_env / 2)"
    by blast
  with g k0 w s0 have first:
    "\<exists>env2 ag2. step_agent demo_env ''agent_0'' 0 = Inr (False, env2)
      \<and> agents env2 ''agent_0'' = Some ag2
      \<and> previous_start_point ag2 = GoalView 2 \<and> track ag2 ! 2 = GoalView 2
      \<and> fst (intermediate_goals ag2 ! 2) = (- 0.75, 2.25)"
    by (auto simp: observes_of_def demo_goals_def actions_list_0 numeral_2_eq_2)
  have "\<exists>env1 env3. run_ops demo_env ?ops = Inr env1
          \<and> step_agent env1 ''agent_0'' 0 = Inr (False, env3)"
    unfolding demo_env_eq by (simp add: demo_eval actions_list_0)
  then obtain env1 env3 where r1: "run_ops demo_env ?ops = Inr env1"
    and s1: "step_agent env1 ''agent_0'' 0 = Inr (False, env3)"
    by blast
  from extension_reads_goal_by_observations [OF a r1 s1]
  obtain ag ag3 j where
    "agents demo_env ''agent_0'' = Some ag" "agents env3 ''agent_0'' = Some ag3"
    "j = (if observes_of ''agent_0'' ?ops = 0 then length (intermediate_goals ag) - 1
           else min (observes_of ''agent_0'' ?ops) (length (intermediate_goals ag)) - 1)"
    "previous_start_point ag3 = GoalView j"
    by blast
  with g r1 s1 have second:
    "\<exists>env1 env2 ag2. run_ops demo_env ?ops = Inr env1
      \<and> step_agent env1 ''agent_0'' 0 = Inr (False, env2)
      \<and> agents env2 ''agent_0'' = Some ag2
      \<and> previous_start_point ag2 = GoalView 1"
    by (auto simp: observes_of_def demo_goals_def)
  from first second show ?thesis by blast
qed

subsection \<open>When step returns without a rollout\<close>

text \<open>
  C1, as stated, fails: the flag \<^verbatim>\<open>completed\<close> is set as soon as one agent of the call
  reaches the length test. With agent 0 on one intermediate goal and agent 1 on two,
  the first \<^verbatim>\<open>step\<close> finishes the track of agent 0 only; the track of agent 1 is
  incomplete and unregistered, and yet the call runs the rollout loop and returns
  a reward dictionary and \<^verbatim>\<open>done = True\<close>.
\<close>

theorem step_rollout_with_incomplete_track:
  "\<exists>env1 ag1 rewards env2.
     step_loop demo_env2 [(''agent_0'', 24), (''agent_1'', 24)] False = Inr (True, env1)
     \<and> agents env1 ''agent_1'' = Some ag1 \<and> registered ag1 = []
     \<and> length (track ag1) < length (intermediate_goals ag1) + 2
     \<and> step demo_X [(''agent_0'', 24), (''agent_1'', 24)] demo_env2
         = Some (Inr ((None, PerAgent rewards, True), env2))"
  unfolding demo_env2_eq
  by (simp add: step_def demo_eval demo_roll)

text \<open>
  C1, amended: a call of the full-offset \<^verbatim>\<open>step\<close> whose \<^verbatim>\<open>for\<close> loop raises nothing
  sets \<^verbatim>\<open>completed\<close> exactly when some agent of \<^verbatim>\<open>actions\<close> enters the call with a
  track one entry short of \<^verbatim>\<open>len(intermediate_goals) + 2\<close>. When no agent does, the
  call returns \<^verbatim>\<open>(self.get_state(), 0.0, False, {})\<close> whatever the rollout's
  collaborators are, so the rollout loop is not started; when one does, the call is
  the rollout loop, whether or not the other agents' tracks are complete.
\<close>

theorem step_noop_unless_an_agent_completes:
  assumes "step_loop env actions False = Inr (completed, env1)"
    and "distinct (map fst actions)"
  shows "(completed \<longleftrightarrow> (\<exists>(a_id, action) \<in> set actions. \<exists>ag. agents env a_id = Some ag
            \<and> length (track ag) + 1 = length (intermediate_goals ag) + 2))
    \<and> (\<not> completed \<and> get_state env1 = Inr (obs, env2)
         \<longrightarrow> step X actions env = Some (Inr ((Some obs, Scalar 0, False), env2)))
    \<and> (completed \<longrightarrow> step X actions env =
          (case rollout X env1 (init_rewards (agent_ids env1)) of
             None \<Rightarrow> None
           | Some (Inl e) \<Rightarrow> Some (Inl e)
           | Some (Inr (rewards, env3)) \<Rightarrow> Some (Inr ((None, PerAgent rewards, True), env3))))"
  using step_loop_flag [OF assms] assms(1)
  by (simp add: step_def)

theorem step_noop_unless_an_agent_completes_witness:
  "(\<exists>obs env2. step demo_X [(''agent_1'', 24)] demo_env2
       = Some (Inr ((Some obs, Scalar 0, False), env2)))
   \<and> (\<exists>rewards env3. step demo_X [(''agent_0'', 24), (''agent_1'', 24)] demo_env2
       = Some (Inr ((None, PerAgent rewards, True), env3)))"
proof -
  have "\<exists>env1 obs env2. step_loop demo_env2 [(''agent_1'', 24)] False = Inr (False, env1)
          \<and> get_state env1 = Inr (obs, env2)"
    unfolding demo_env2_eq by (simp add: demo_eval get_state_def)
  then obtain env1 obs env2 where
    l: "step_loop demo_env2 [(''agent_1'', 24)] False = Inr (False, env1)"
    and g: "get_state env1 = Inr (obs, env2)"
    by blast
  have d: "distinct (map fst [(''agent_1'', 24 :: int)])"
    by simp
  have "\<exists>env1 rewards env3.
          step_loop demo_env2 [(''agent_0'', 24), (''agent_1'', 24)] False = Inr (True, env1)
          \<and> rollout demo_X env1 (init_rewards (agent_ids env1)) = Some (Inr (rewards, env3))"
    unfolding demo_env2_eq by (simp add: demo_eval demo_roll)
  then obtain env1' rewards env3 where
    l': "step_loop demo_env2 [(''agent_0'', 24), (''agent_1'', 24)] False = Inr (True, env1')"
    and r': "rollout demo_X env1' (init_rewards (agent_ids env1')) = Some (Inr (rewards, env3))"
    by blast
  have d': "distinct (map fst [(''agent_0'', 24 :: int), (''agent_1'', 24)])"
    by simp
  from step_noop_unless_an_agent_completes [OF l d, of obs env2 demo_X] g
    step_noop_unless_an_agent_completes [OF l' d', of obs env2 demo_X] r'
  show ?thesis by simp
qed

subsection \<open>The intermediate goals under step\<close>

text \<open>
  C4 fails on the full-offset \<^verbatim>\<open>step\<close>: \<^verbatim>\<open>pt\<close> is a view of the intermediate goal
  and \<^verbatim>\<open>pt += deviation\<close> adds in place. After the observation that follows
  \<^verbatim>\<open>add_vehicle\<close>, one \<^verbatim>\<open>step\<close> with action 0 (offset \<open>(-0.75, -0.75)\<close>, width 2)
  turns the first intermediate goal \<open>(1, 0)\<close> into \<open>(0.25, -0.75)\<close>. The left/right
  \<^verbatim>\<open>step\<close> clones the goal before it adds.
\<close>

theorem step_overwrites_intermediate_goal:
  "\<exists>obs env1 obs2 env2 ag2.
     get_state demo_env = Inr (obs, env1)
     \<and> step demo_X [(''agent_0'', 0)] env1 = Some (Inr ((Some obs2, Scalar 0, False), env2))
     \<and> agents env2 ''agent_0'' = Some ag2
     \<and> intermediate_goals ag2 = [((0.25, - 0.75), []), ((0, 1), []), ((0, 3), [])]
     \<and> intermediate_goals ag2 \<noteq> demo_goals"
  unfolding demo_env_eq
  by (simp add: step_def demo_eval0 get_state_def demo_goals_def)

subsection \<open>Action indices outside the catalog\<close>

text \<open>
  C9, as stated, fails for negative indices: Python's list indexing counts \<open>-1\<close> from
  the end, so the index \<open>-1\<close>, which is outside \<open>[0, 13)\<close>, selects the last entry of
  \<^verbatim>\<open>accln_control_actions_list\<close> and the call returns.
\<close>

theorem transform_negative_index_succeeds:
  "\<exists>res. transform_state_action_single_agent demo_dynamics demo_env ''agent_0'' (- 1) 1 = Inr res"
  unfolding demo_env_eq
  by (simp add: transform_state_action_single_agent_def py_index_def
        length_accln_control_actions_list Let_def)

text \<open>
  C9, amended: with \<open>N\<close> the size of the catalog indexed (13 for
  \<^verbatim>\<open>transform_state_action_single_agent\<close>, 49 for the full-offset \<^verbatim>\<open>step\<close>), the
  catalog lookup raises \<^verbatim>\<open>IndexError\<close> exactly for the indices outside \<open>[-N, N)\<close>:
  for a known agent \<^verbatim>\<open>transform_state_action_single_agent\<close> raises \<^verbatim>\<open>IndexError\<close>
  if and only if the index is outside \<open>[-N, N)\<close>, and so does a pass of the \<^verbatim>\<open>step\<close>
  loop once the read of the intermediate goal has succeeded; a \<^verbatim>\<open>step\<close> call with such
  an index for any of its agents ends in an exception. Indices in \<open>[-N, N)\<close> never
  raise it.
\<close>

theorem index_failure_outside_python_range:
  "(agents env a_id = Some ag \<longrightarrow>
      (transform_state_action_single_agent dynamics env a_id action timesteps = Inl IndexError
       \<longleftrightarrow> action < - int (length accln_control_actions_list)
           \<or> int (length accln_control_actions_list) \<le> action))
   \<and> (agents env a_id = Some ag
       \<and> py_index (intermediate_goals ag) (track_point ag - 1) \<noteq> None \<longrightarrow>
      (step_agent env a_id action = Inl IndexError
       \<longleftrightarrow> action < - int (length actions_list) \<or> int (length actions_list) \<le> action))
   \<and> ((a_id, action) \<in> set actions
       \<and> (action < - int (length actions_list) \<or> int (length actions_list) \<le> action) \<longrightarrow>
      (\<exists>e. step X actions env = Some (Inl e)))
   \<and> length accln_control_actions_list = 13 \<and> length actions_list = 49"
proof (intro conjI impI)
  assume "agents env a_id = Some ag"
  then show "transform_state_action_single_agent dynamics env a_id action timesteps = Inl IndexError
       \<longleftrightarrow> action < - int (length accln_control_actions_list)
           \<or> int (length accln_control_actions_list) \<le> action"
    using py_index_None_iff [of accln_control_actions_list action]
    by (auto simp: transform_state_action_single_agent_def Let_def split: option.splits)
next
  assume "agents env a_id = Some ag
       \<and> py_index (intermediate_goals ag) (track_point ag - 1) \<noteq> None"
  then show "step_agent env a_id action = Inl IndexError
       \<longleftrightarrow> action < - int (length actions_list) \<or> int (length actions_list) \<le> action"
    using py_index_None_iff [of actions_list action]
    by (auto simp: step_agent_def Let_def split: option.splits)
next
  assume "(a_id, action) \<in> set actions
       \<and> (action < - int (length actions_list) \<or> int (length actions_list) \<le> action)"
  then have "(a_id, action) \<in> set actions" and "py_index actions_list action = None"
    by (simp_all add: py_index_None_iff)
  from step_loop_fails [OF this, of env False] show "\<exists>e. step X actions env = Some (Inl e)"
    by (auto simp: step_def)
qed (simp_all add: length_accln_control_actions_list length_actions_list)

theorem index_failure_outside_python_range_witness:
  "transform_state_action_single_agent demo_dynamics demo_env ''agent_0'' 13 1 = Inl IndexError
   \<and> transform_state_action_single_agent demo_dynamics demo_env ''agent_0'' (- 13) 1
       \<noteq> Inl IndexError
   \<and> step_agent demo_env ''agent_0'' (- 50) = Inl IndexError
   \<and> step_agent demo_env ''agent_0'' 48 \<noteq> Inl IndexError
   \<and> (\<exists>e. step demo_X [(''agent_0'', 49)] demo_env = Some (Inl e))"
proof -
  let ?ag = "(demo_agent demo_goals)\<lparr>track_point := 0, previous_start_point := Val (3, 0),
                   track := [Val (11, 0), Val (3, 0)]\<rparr>"
  have a: "agents demo_env ''agent_0'' = Some ?ag"
    unfolding demo_env_eq by (simp add: demo_agent_def demo_goals_def)
  have g: "py_index (intermediate_goals ?ag) (track_point ?ag - 1) \<noteq> None"
    by (simp add: demo_agent_def demo_goals_def py_index_def)
  have m: "(''agent_0'', 49) \<in> set [(''agent_0'', 49 :: int)]"
    by simp
  note t = index_failure_outside_python_range
    [where env = demo_env and a_id = "''agent_0''" and ag = ?ag and dynamics = demo_dynamics
       and timesteps = 1 and X = demo_X and actions = "[(''agent_0'', 49)]"]
  from t [where action = 13] t [where action = "- 13"] t [where action = "- 50"]
    t [where action = 48] t [where action = 49] a g m
  show ?thesis
    by (simp add: length_accln_control_actions_list length_actions_list)
qed

subsection \<open>The rewards of a rollout\<close>

lemma init_rewards_apply: "init_rewards ids a = (if a \<in> set ids then Some 0 else None)"
  unfolding init_rewards_def
  by (induction ids) auto

lemma rew_of_Cons: "rew_of ((b, r) # rest) a = (if b = a then r else 0) + rew_of rest a"
  by (simp add: rew_of_def)

lemma add_rewards_Inr:
  "fst ` set rew \<subseteq> dom rewards \<Longrightarrow>
   add_rewards rew rewards = Inr (\<lambda>a. map_option (\<lambda>v. v + rew_of rew a) (rewards a))"
proof (induction rew arbitrary: rewards)
  case Nil
  have "(\<lambda>a. map_option (\<lambda>v. v + rew_of [] a) (rewards a)) = rewards"
    by (rule ext) (simp add: rew_of_def option.map_ident)
  then show ?case by simp
next
  case (Cons x rew)
  obtain b r where x: "x = (b, r)" by (cases x)
  from Cons.prems x obtain v where v: "rewards b = Some v" by auto
  have sub: "fst ` set rew \<subseteq> dom (rewards(b \<mapsto> v + r))"
    using Cons.prems by auto
  have eq: "(\<lambda>a. map_option (\<lambda>u. u + rew_of rew a) ((rewards(b \<mapsto> v + r)) a))
        = (\<lambda>a. map_option (\<lambda>u. u + rew_of (x # rew) a) (rewards a))"
    by (rule ext) (simp add: x v rew_of_Cons)
  have "add_rewards (x # rew) rewards = add_rewards rew (rewards(b \<mapsto> v + r))"
    by (simp add: x v)
  also have "\<dots> = Inr (\<lambda>a. map_option (\<lambda>u. u + rew_of rew a) ((rewards(b \<mapsto> v + r)) a))"
    by (rule Cons.IH [OF sub])
  finally show ?case unfolding eq .
qed

lemma add_rewards_dom:
  "add_rewards rew rewards = Inr rewards1 \<Longrightarrow> fst ` set rew \<subseteq> dom rewards"
proof (induction rew arbitrary: rewards)
  case Nil
  then show ?case by simp
next
  case (Cons x rew)
  obtain b r where x: "x = (b, r)" by (cases x)
  from Cons.prems x obtain v where v: "rewards b = Some v"
    and r: "add_rewards rew (rewards(b \<mapsto> v + r)) = Inr rewards1"
    by (auto split: option.splits)
  have domeq: "dom (rewards(b \<mapsto> v + r)) = dom rewards"
    using v by auto
  have "fst ` set rew \<subseteq> dom (rewards(b \<mapsto> v + r))"
    by (rule Cons.IH [OF r])
  then have "fst ` set rew \<subseteq> dom rewards"
    unfolding domeq .
  moreover have "b \<in> dom rewards" using v by auto
  ultimately show ?case using x by simp
qed

lemma env_after_shift: "env_after X (Suc k) env = env_after X k (snd (snd (tick X env)))"
  by simp

lemma tick_done_shift: "tick_done X env (Suc k) = tick_done X (snd (snd (tick X env))) k"
  by (simp add: tick_done_def)

lemma tick_rew_shift: "tick_rew X env (Suc k) = tick_rew X (snd (snd (tick X env))) k"
  by (simp add: tick_rew_def)

lemma rollout_sum:
  assumes "\<forall>k<n. \<not> tick_done X env k" and "tick_done X env n"
    and "\<forall>k\<le>n. fst ` set (tick_rew X env k) \<subseteq> dom rewards"
  shows "rollout X env rewards =
     Some (Inr (\<lambda>a. map_option (\<lambda>v. v + (\<Sum>k\<le>n. rew_of (tick_rew X env k) a)) (rewards a),
                env_after X (Suc n) env))"
  using assms
proof (induction n arbitrary: env rewards)
  case 0
  obtain rew d env1 where t: "tick X env = (rew, d, env1)" by (cases "tick X env")
  from 0 t have d: "d" and sub: "fst ` set rew \<subseteq> dom rewards"
    by (simp_all add: tick_done_def tick_rew_def)
  show ?case
    by (subst rollout.simps) (simp add: t d add_rewards_Inr [OF sub] tick_rew_def)
next
  case (Suc n)
  obtain rew d env1 where t: "tick X env = (rew, d, env1)" by (cases "tick X env")
  from Suc.prems(1) t have d: "\<not> d"
    by (auto simp: tick_done_def)
  from Suc.prems(3) [rule_format, of 0] t have sub: "fst ` set rew \<subseteq> dom rewards"
    by (simp add: tick_rew_def)
  let ?r1 = "\<lambda>a. map_option (\<lambda>v. v + rew_of rew a) (rewards a)"
  have dom1: "dom ?r1 = dom rewards"
    by (auto simp: dom_def)
  have e1: "snd (snd (tick X env)) = env1" using t by simp
  have p1: "\<forall>k<n. \<not> tick_done X env1 k"
    using Suc.prems(1) unfolding e1 [symmetric] tick_done_shift [symmetric] by auto
  have p2: "tick_done X env1 n"
    using Suc.prems(2) unfolding e1 [symmetric] tick_done_shift [symmetric] .
  have p3: "\<forall>k\<le>n. fst ` set (tick_rew X env1 k) \<subseteq> dom ?r1"
    using Suc.prems(3) unfolding e1 [symmetric] tick_rew_shift [symmetric] dom1 by auto
  have r0: "tick_rew X env 0 = rew"
    using t by (simp add: tick_rew_def)
  have "rollout X env rewards = rollout X env1 ?r1"
    by (subst rollout.simps) (simp add: t d add_rewards_Inr [OF sub])
  also have "\<dots> = Some (Inr (\<lambda>a. map_option (\<lambda>v. v + (\<Sum>k\<le>n. rew_of (tick_rew X env1 k) a)) (?r1 a),
                env_after X (Suc n) env1))"
    by (rule Suc.IH [OF p1 p2 p3])
  also have "(\<lambda>a. map_option (\<lambda>v. v + (\<Sum>k\<le>n. rew_of (tick_rew X env1 k) a)) (?r1 a))
     = (\<lambda>a. map_option (\<lambda>v. v + (\<Sum>k\<le>Suc n. rew_of (tick_rew X env k) a)) (rewards a))"
  proof (rule ext)
    fix a
    have "(\<Sum>k\<le>Suc n. rew_of (tick_rew X env k) a)
          = rew_of rew a + (\<Sum>k\<le>n. rew_of (tick_rew X env1 k) a)"
      unfolding sum.atMost_Suc_shift r0 tick_rew_shift e1 by simp
    then show "map_option (\<lambda>v. v + (\<Sum>k\<le>n. rew_of (tick_rew X env1 k) a)) (?r1 a)
       = map_option (\<lambda>v. v + (\<Sum>k\<le>Suc n. rew_of (tick_rew X env k) a)) (rewards a)"
      by (cases "rewards a") (simp_all add: add.assoc)
  qed
  also have "env_after X (Suc n) env1 = env_after X (Suc (Suc n)) env"
    unfolding env_after_shift [of X "Suc n" env] e1 ..
  finally show ?case .
qed

lemma rollout_ticks:
  assumes "rollout X env rewards = Some y"
  shows "y = Inr (r, env') \<longrightarrow>
    (\<exists>n. (\<forall>k<n. \<not> tick_done X env k) \<and> tick_done X env n
       \<and> (\<forall>k\<le>n. fst ` set (tick_rew X env k) \<subseteq> dom rewards))"
  using assms
proof (induction rule: rollout.raw_induct [rotated 1, consumes 1])
  case (1 rollout' X env rewards y)
  obtain rew d env1 where t: "tick X env = (rew, d, env1)" by (cases "tick X env")
  show ?case
  proof
    assume y: "y = Inr (r, env')"
    from 1(2) t y obtain rewards1 where a: "add_rewards rew rewards = Inr rewards1"
      by (auto split: sum.splits)
    from add_rewards_dom [OF a] have sub: "fst ` set rew \<subseteq> dom rewards" .
    have a1: "rewards1 = (\<lambda>a. map_option (\<lambda>v. v + rew_of rew a) (rewards a))"
      using a add_rewards_Inr [OF sub] by simp
    have dom1: "dom rewards1 = dom rewards"
      unfolding a1 by (auto simp: dom_def)
    have e1: "snd (snd (tick X env)) = env1" using t by simp
    show "\<exists>n. (\<forall>k<n. \<not> tick_done X env k) \<and> tick_done X env n
       \<and> (\<forall>k\<le>n. fst ` set (tick_rew X env k) \<subseteq> dom rewards)"
    proof (cases d)
      case True
      have "tick_done X env 0" using t True by (simp add: tick_done_def)
      moreover have "fst ` set (tick_rew X env 0) \<subseteq> dom rewards"
        using t sub by (simp add: tick_rew_def)
      ultimately show ?thesis by (intro exI [of _ 0]) simp
    next
      case False
      with 1(2) t a have "rollout' X env1 rewards1 = Some y" by simp
      from 1(1) [OF this] y dom1 obtain n where
        n1: "\<forall>k<n. \<not> tick_done X env1 k" and n2: "tick_done X env1 n"
        and n3: "\<forall>k\<le>n. fst ` set (tick_rew X env1 k) \<subseteq> dom rewards"
        by auto
      have "\<not> tick_done X env k" if "k < Suc n" for k
      proof (cases k)
        case 0
        then show ?thesis using t False by (simp add: tick_done_def)
      next
        case (Suc j)
        with that n1 show ?thesis unfolding Suc tick_done_shift e1 by simp
      qed
      moreover have "tick_done X env (Suc n)"
        unfolding tick_done_shift e1 by (rule n2)
      moreover have "fst ` set (tick_rew X env k) \<subseteq> dom rewards" if "k \<le> Suc n" for k
      proof (cases k)
        case 0
        then show ?thesis using t sub by (simp add: tick_rew_def)
      next
        case (Suc j)
        with that n3 show ?thesis unfolding Suc tick_rew_shift e1 by simp
      qed
      ultimately show ?thesis by (intro exI [of _ "Suc n"]) blast
    qed
  qed
qed

lemma dom_init_rewards: "dom (init_rewards ids) = set ids"
  by (auto simp: init_rewards_apply dom_def)

lemma init_rewards_sum:
  "(\<lambda>a. map_option (\<lambda>v. v + s a) (init_rewards ids a))
   = (\<lambda>a. if a \<in> set ids then Some (s a) else None)"
  by (rule ext) (simp add: init_rewards_apply)

lemma rollout_init_iff:
  "rollout X env1 (init_rewards ids) = Some (Inr (rewards, env')) \<longleftrightarrow>
     (\<exists>n. (\<forall>k<n. \<not> tick_done X env1 k) \<and> tick_done X env1 n
        \<and> (\<forall>k\<le>n. fst ` set (tick_rew X env1 k) \<subseteq> set ids)
        \<and> rewards = (\<lambda>a. if a \<in> set ids
                           then Some (\<Sum>k\<le>n. rew_of (tick_rew X env1 k) a) else None)
        \<and> env' = env_after X (Suc n) env1)"
  (is "?L \<longleftrightarrow> ?R")
proof
  assume l: ?L
  from rollout_ticks [OF l, of rewards env'] obtain n where
    n1: "\<forall>k<n. \<not> tick_done X env1 k" and n2: "tick_done X env1 n"
    and n3: "\<forall>k\<le>n. fst ` set (tick_rew X env1 k) \<subseteq> dom (init_rewards ids)"
    by auto
  from rollout_sum [OF n1 n2 n3] l
  have "rewards = (\<lambda>a. if a \<in> set ids
                           then Some (\<Sum>k\<le>n. rew_of (tick_rew X env1 k) a) else None)"
    and "env' = env_after X (Suc n) env1"
    unfolding init_rewards_sum by simp_all
  with n1 n2 n3 show ?R
    unfolding dom_init_rewards by blast
next
  assume ?R
  then obtain n where
    n1: "\<forall>k<n. \<not> tick_done X env1 k" and n2: "tick_done X env1 n"
    and n3: "\<forall>k\<le>n. fst ` set (tick_rew X env1 k) \<subseteq> dom (init_rewards ids)"
    and r: "rewards = (\<lambda>a. if a \<in> set ids
                           then Some (\<Sum>k\<le>n. rew_of (tick_rew X env1 k) a) else None)"
    and e: "env' = env_after X (Suc n) env1"
    unfolding dom_init_rewards by blast
  from rollout_sum [OF n1 n2 n3] show ?L
    unfolding init_rewards_sum r e .
qed

text \<open>
  C5: a call of \<^verbatim>\<open>step\<close> (full-offset or left/right) returns a reward dictionary
  exactly when its \<^verbatim>\<open>for\<close> loop raises nothing (and, for the full-offset variant, sets
  \<^verbatim>\<open>completed\<close>) and the rollout loop runs to completion: the base environment
  reports \<^verbatim>\<open>dones["__all__"]\<close> for the first time in some pass \<open>n\<close> and every id
  it pays in passes \<open>0, \<dots>, n\<close> is an agent id. The dictionary then maps every agent
  id to the sum, from 0, of the rewards the base environment's \<^verbatim>\<open>step\<close> returned
  for that id in the passes \<open>0, \<dots>, n\<close>, and nothing else; the call returns
  \<^verbatim>\<open>None\<close> as observation and \<^verbatim>\<open>done = True\<close>.
\<close>

theorem rollout_rewards_are_per_agent_sums:
  "(step X actions env = Some (Inr ((obs, PerAgent rewards, finished), env')) \<longleftrightarrow>
      (\<exists>env1 n. step_loop env actions False = Inr (True, env1)
         \<and> (\<forall>k<n. \<not> tick_done X env1 k) \<and> tick_done X env1 n
         \<and> (\<forall>k\<le>n. fst ` set (tick_rew X env1 k) \<subseteq> set (agent_ids env1))
         \<and> rewards = (\<lambda>a. if a \<in> set (agent_ids env1)
                            then Some (\<Sum>k\<le>n. rew_of (tick_rew X env1 k) a) else None)
         \<and> env' = env_after X (Suc n) env1
         \<and> obs = None \<and> finished))
   \<and> (lr_step X actions env = Some (Inr ((obs, PerAgent rewards, finished), env')) \<longleftrightarrow>
      (\<exists>env1 n. lr_step_loop env actions = Inr env1
         \<and> (\<forall>k<n. \<not> tick_done X env1 k) \<and> tick_done X env1 n
         \<and> (\<forall>k\<le>n. fst ` set (tick_rew X env1 k) \<subseteq> set (agent_ids env1))
         \<and> rewards = (\<lambda>a. if a \<in> set (agent_ids env1)
                            then Some (\<Sum>k\<le>n. rew_of (tick_rew X env1 k) a) else None)
         \<and> env' = env_after X (Suc n) env1
         \<and> obs = None \<and> finished))"
proof
  show "step X actions env = Some (Inr ((obs, PerAgent rewards, finished), env')) \<longleftrightarrow>
      (\<exists>env1 n. step_loop env actions False = Inr (True, env1)
         \<and> (\<forall>k<n. \<not> tick_done X env1 k) \<and> tick_done X env1 n
         \<and> (\<forall>k\<le>n. fst ` set (tick_rew X env1 k) \<subseteq> set (agent_ids env1))
         \<and> rewards = (\<lambda>a. if a \<in> set (agent_ids env1)
                            then Some (\<Sum>k\<le>n. rew_of (tick_rew X env1 k) a) else None)
         \<and> env' = env_after X (Suc n) env1
         \<and> obs = None \<and> finished)"
  proof (cases "step_loop env actions False")
    case (Inl e)
    then show ?thesis by (simp add: step_def)
  next
    case (Inr p)
    obtain c env1 where p: "p = (c, env1)" by (cases p)
    show ?thesis
    proof (cases c)
      case False
      with Inr p show ?thesis
        by (simp add: step_def split: sum.splits)
    next
      case True
      have "step X actions env = Some (Inr ((obs, PerAgent rewards, finished), env')) \<longleftrightarrow>
            rollout X env1 (init_rewards (agent_ids env1)) = Some (Inr (rewards, env'))
            \<and> obs = None \<and> finished"
        using Inr p True by (auto simp: step_def split: option.splits sum.splits)
      then show ?thesis
        unfolding rollout_init_iff using Inr p True by auto
    qed
  qed
next
  show "lr_step X actions env = Some (Inr ((obs, PerAgent rewards, finished), env')) \<longleftrightarrow>
      (\<exists>env1 n. lr_step_loop env actions = Inr env1
         \<and> (\<forall>k<n. \<not> tick_done X env1 k) \<and> tick_done X env1 n
         \<and> (\<forall>k\<le>n. fst ` set (tick_rew X env1 k) \<subseteq> set (agent_ids env1))
         \<and> rewards = (\<lambda>a. if a \<in> set (agent_ids env1)
                            then Some (\<Sum>k\<le>n. rew_of (tick_rew X env1 k) a) else None)
         \<and> env' = env_after X (Suc n) env1
         \<and> obs = None \<and> finished)"
  proof (cases "lr_step_loop env actions")
    case (Inl e)
    then show ?thesis by (simp add: lr_step_def)
  next
    case (Inr env1)
    have "lr_step X actions env = Some (Inr ((obs, PerAgent rewards, finished), env')) \<longleftrightarrow>
          rollout X env1 (init_rewards (agent_ids env1)) = Some (Inr (rewards, env'))
          \<and> obs = None \<and> finished"
      using Inr by (auto simp: lr_step_def split: option.splits sum.splits)
    then show ?thesis
      unfolding rollout_init_iff using Inr by auto
  qed
qed

theorem rollout_rewards_are_per_agent_sums_witness:
  "\<exists>rewards env'.
     step demo_X [(''agent_0'', 24), (''agent_1'', 24)] demo_env2
       = Some (Inr ((None, PerAgent rewards, True), env'))
     \<and> rewards ''agent_0'' = Some 2 \<and> rewards ''agent_1'' = Some 2
     \<and> rewards ''agent_2'' = None"
proof -
  have "\<exists>env1. step_loop demo_env2 [(''agent_0'', 24), (''agent_1'', 24)] False = Inr (True, env1)
          \<and> agent_ids env1 = [''agent_0'', ''agent_1'']
          \<and> \<not> tick_done demo_X env1 0 \<and> tick_done demo_X env1 (Suc 0)
          \<and> tick_rew demo_X env1 0 = [(''agent_0'', 1), (''agent_1'', 1)]
          \<and> tick_rew demo_X env1 (Suc 0) = [(''agent_0'', 1), (''agent_1'', 1)]"
    unfolding demo_env2_eq
    by (simp add: demo_eval tick_done_def tick_rew_def tick_def get_internal_state_def demo_X_def)
  then obtain env1 where
    l: "step_loop demo_env2 [(''agent_0'', 24), (''agent_1'', 24)] False = Inr (True, env1)"
    and ids: "agent_ids env1 = [''agent_0'', ''agent_1'']"
    and d0: "\<not> tick_done demo_X env1 0" and d1: "tick_done demo_X env1 (Suc 0)"
    and r0: "tick_rew demo_X env1 0 = [(''agent_0'', 1), (''agent_1'', 1)]"
    and r1: "tick_rew demo_X env1 (Suc 0) = [(''agent_0'', 1), (''agent_1'', 1)]"
    by blast
  have before: "\<forall>k<Suc 0. \<not> tick_done demo_X env1 k"
    using d0 by simp
  have keys: "\<forall>k\<le>Suc 0. fst ` set (tick_rew demo_X env1 k) \<subseteq> set (agent_ids env1)"
  proof (intro allI impI)
    fix k :: nat assume "k \<le> Suc 0"
    then have "k = 0 \<or> k = Suc 0" by arith
    then show "fst ` set (tick_rew demo_X env1 k) \<subseteq> set (agent_ids env1)"
      using r0 r1 ids by auto
  qed
  let ?r = "\<lambda>a. if a \<in> set (agent_ids env1)
                 then Some (\<Sum>k\<le>Suc 0. rew_of (tick_rew demo_X env1 k) a) else None"
  from rollout_rewards_are_per_agent_sums
    [where X = demo_X and actions = "[(''agent_0'', 24), (''agent_1'', 24)]" and env = demo_env2
       and obs = None and rewards = ?r and finished = True
       and env' = "env_after demo_X (Suc (Suc 0)) env1"]
    l before d1 keys
  have "step demo_X [(''agent_0'', 24), (''agent_1'', 24)] demo_env2
          = Some (Inr ((None, PerAgent ?r, True), env_after demo_X (Suc (Suc 0)) env1))"
    by blast
  moreover have "?r ''agent_0'' = Some 2" "?r ''agent_1'' = Some 2" "?r ''agent_2'' = None"
    by (simp_all add: ids r0 r1 rew_of_def)
  ultimately show ?thesis by blast
qed

subsection \<open>The left/right step\<close>

lemma lr_points_Inr:
  assumes "lr_points w coord action gs = Inr pts"
  shows "length pts = length gs
    \<and> (gs \<noteq> [] \<longrightarrow> py_index lr_actions_list action \<noteq> None)
    \<and> (\<forall>k. py_index lr_actions_list action = Some k \<longrightarrow>
          pts = map (\<lambda>g. if coord = 0
                          then (fst (fst g) + lr_actions_list ! k * w / 2, snd (fst g))
                          else (fst (fst g), snd (fst g) + lr_actions_list ! k * w / 2)) gs)"
  using assms
proof (induction gs arbitrary: pts)
  case Nil
  then show ?case by simp
next
  case (Cons g gs)
  from Cons.prems obtain k pts' where
    k: "py_index lr_actions_list action = Some k"
    and r: "lr_points w coord action gs = Inr pts'"
    and p: "pts = (if coord = 0
                   then (fst (fst g) + lr_actions_list ! k * w / 2, snd (fst g))
                   else (fst (fst g), snd (fst g) + lr_actions_list ! k * w / 2)) # pts'"
    by (auto split: option.splits sum.splits)
  from Cons.IH [OF r] k p show ?case by simp
qed

lemma lr_step_agent_Inr:
  assumes "lr_step_agent env a_id action = Inr env1"
  shows "\<exists>ag d pts p tr. agents env a_id = Some ag
    \<and> road_name ag \<noteq> [] \<and> digit_of (last (road_name ag)) = Some d
    \<and> lr_points (width env) ((d + 1) mod 2) action (intermediate_goals ag) = Inr pts
    \<and> track ag @ map Val pts \<noteq> []
    \<and> deref ag (last (track ag @ map Val pts)) = Some p
    \<and> torch_cat (ag\<lparr>track := track ag @ map Val pts @
                       [get_dummy_point (width env) (length_road env) p]\<rparr>) = Some tr
    \<and> env1 = env\<lparr>agents := (agents env)(a_id \<mapsto>
               ag\<lparr>track := track ag @ map Val pts @
                       [get_dummy_point (width env) (length_road env) p],
                  registered := registered ag @ [tr]\<rparr>)\<rparr>"
proof -
  from assms obtain ag where ag: "agents env a_id = Some ag"
    by (auto simp: lr_step_agent_def split: option.splits)
  from assms ag obtain coord where c: "road_coord (road_name ag) = Inr coord"
    by (auto simp: lr_step_agent_def split: sum.splits)
  then obtain d where ne: "road_name ag \<noteq> []" and d: "digit_of (last (road_name ag)) = Some d"
    and cd: "coord = (d + 1) mod 2"
    by (auto simp: road_coord_def split: if_splits option.splits)
  from assms ag c obtain pts where
    pts: "lr_points (width env) coord action (intermediate_goals ag) = Inr pts"
    by (auto simp: lr_step_agent_def split: sum.splits)
  from assms ag c pts have t: "track ag @ map Val pts \<noteq> []"
    by (auto simp: lr_step_agent_def split: if_splits)
  from assms ag c pts t obtain p where
    p: "deref ag (last (track ag @ map Val pts)) = Some p"
    by (auto simp: lr_step_agent_def split: if_splits option.splits)
  let ?ag1 = "ag\<lparr>track := track ag @ map Val pts @
                       [get_dummy_point (width env) (length_road env) p]\<rparr>"
  from assms ag c pts t p obtain tr where tr: "torch_cat ?ag1 = Some tr"
    by (auto simp: lr_step_agent_def Let_def split: if_splits option.splits)
  from assms ag c pts t p tr
  have e: "env1 = env\<lparr>agents := (agents env)(a_id \<mapsto> ?ag1\<lparr>registered := registered ag @ [tr]\<rparr>)\<rparr>"
    by (auto simp: lr_step_agent_def Let_def split: if_splits)
  from ag ne d pts [unfolded cd] t p tr e show ?thesis
    by (intro exI [of _ ag] exI [of _ d] exI [of _ pts] exI [of _ p] exI [of _ tr]) simp
qed

lemma torch_cat_registered: "torch_cat (ag\<lparr>registered := r\<rparr>) = torch_cat ag"
proof -
  have "deref (ag\<lparr>registered := r\<rparr>) = deref ag"
    by (intro ext) (simp add: deref_def split: tentry.splits)
  then show ?thesis by (simp add: torch_cat_def)
qed

lemma lr_step_loop_other:
  assumes "lr_step_loop env actions = Inr env1"
  shows "width env1 = width env \<and> length_road env1 = length_road env
       \<and> (\<forall>b. b \<notin> fst ` set actions \<longrightarrow> agents env1 b = agents env b)"
  using assms
proof (induction actions arbitrary: env)
  case Nil
  then show ?case by simp
next
  case (Cons x actions)
  obtain b j where x: "x = (b, j)" by (cases x)
  from Cons.prems x obtain env' where
    s: "lr_step_agent env b j = Inr env'" and r: "lr_step_loop env' actions = Inr env1"
    by (auto split: sum.splits)
  from lr_step_agent_Inr [OF s] obtain ag' where
    e: "env' = env\<lparr>agents := (agents env)(b \<mapsto> ag')\<rparr>" by blast
  from Cons.IH [OF r] have
    w: "width env1 = width env'" "length_road env1 = length_road env'"
    and o: "\<forall>c. c \<notin> fst ` set actions \<longrightarrow> agents env1 c = agents env' c"
    by blast+
  have "\<forall>c. c \<notin> fst ` set (x # actions) \<longrightarrow> agents env1 c = agents env c"
  proof (intro allI impI)
    fix c assume "c \<notin> fst ` set (x # actions)"
    then have "c \<noteq> b" and "c \<notin> fst ` set actions" using x by auto
    with o e show "agents env1 c = agents env c" by simp
  qed
  with w e show ?case by simp
qed

lemma lr_step_loop_agent:
  fixes env :: "('o, 'b) env"
  assumes "lr_step_loop env actions = Inr env1" and "distinct (map fst actions)"
    and "(a_id, action) \<in> set actions"
  shows "\<exists>(env0 :: ('o, 'b) env) env0'. agents env0 a_id = agents env a_id \<and> width env0 = width env
    \<and> length_road env0 = length_road env
    \<and> lr_step_agent env0 a_id action = Inr env0' \<and> agents env1 a_id = agents env0' a_id"
  using assms
proof (induction actions arbitrary: env)
  case Nil
  then show ?case by simp
next
  case (Cons x actions)
  obtain b j where x: "x = (b, j)" by (cases x)
  from Cons.prems(1) x obtain env' where
    s: "lr_step_agent env b j = Inr env'" and r: "lr_step_loop env' actions = Inr env1"
    by (auto split: sum.splits)
  from Cons.prems(2) x have dist: "distinct (map fst actions)"
    and nb: "b \<notin> fst ` set actions"
    by auto
  show ?case
  proof (cases "(a_id, action) = x")
    case True
    with x have ab: "a_id = b" "action = j" by auto
    from lr_step_loop_other [OF r] nb have "agents env1 b = agents env' b" by blast
    with s ab show ?thesis
      by (intro exI [of _ env] exI [of _ env']) simp
  next
    case False
    with Cons.prems(3) have m: "(a_id, action) \<in> set actions" by auto
    then have "a_id \<in> fst ` set actions" by force
    with nb have ne: "a_id \<noteq> b" by auto
    from lr_step_agent_Inr [OF s] obtain ag' where
      e: "env' = env\<lparr>agents := (agents env)(b \<mapsto> ag')\<rparr>" by blast
    from Cons.IH [OF r dist m] obtain env0 :: "('o, 'b) env" and env0' where
      "agents env0 a_id = agents env' a_id" "width env0 = width env'"
      "length_road env0 = length_road env'"
      "lr_step_agent env0 a_id action = Inr env0'" "agents env1 a_id = agents env0' a_id"
      by blast
    with e ne show ?thesis
      by (intro exI [of _ env0] exI [of _ env0']) simp
  qed
qed

lemma lr_step_loop_builds:
  fixes env :: "('o, 'b) env"
  assumes "lr_step_loop env actions = Inr env1" and "distinct (map fst actions)"
    and "(a_id, action) \<in> set actions"
  shows "\<exists>ag ag1 d pts p.
      agents env a_id = Some ag \<and> agents env1 a_id = Some ag1
    \<and> digit_of (last (road_name ag)) = Some d
    \<and> length pts = length (intermediate_goals ag)
    \<and> (\<forall>k. py_index lr_actions_list action = Some k \<longrightarrow>
          pts = map (\<lambda>g. if (d + 1) mod 2 = 0
                          then (fst (fst g) + lr_actions_list ! k * width env / 2, snd (fst g))
                          else (fst (fst g), snd (fst g) + lr_actions_list ! k * width env / 2))
                    (intermediate_goals ag))
    \<and> deref ag (last (track ag @ map Val pts)) = Some p
    \<and> track ag1 = track ag @ map Val pts @ [get_dummy_point (width env) (length_road env) p]
    \<and> intermediate_goals ag1 = intermediate_goals ag
    \<and> (\<exists>tr. torch_cat ag1 = Some tr \<and> registered ag1 = registered ag @ [tr])"
proof -
  from lr_step_loop_agent [OF assms] obtain env0 :: "('o, 'b) env" and env0' where
    a0: "agents env0 a_id = agents env a_id" and w0: "width env0 = width env"
    and l0: "length_road env0 = length_road env"
    and s: "lr_step_agent env0 a_id action = Inr env0'"
    and a1: "agents env1 a_id = agents env0' a_id"
    by blast
  from lr_step_agent_Inr [OF s] obtain ag d pts p tr where
    ag: "agents env0 a_id = Some ag"
    and d: "digit_of (last (road_name ag)) = Some d"
    and pts: "lr_points (width env0) ((d + 1) mod 2) action (intermediate_goals ag) = Inr pts"
    and p: "deref ag (last (track ag @ map Val pts)) = Some p"
    and tr: "torch_cat (ag\<lparr>track := track ag @ map Val pts @
                       [get_dummy_point (width env0) (length_road env0) p]\<rparr>) = Some tr"
    and e: "env0' = env0\<lparr>agents := (agents env0)(a_id \<mapsto>
               ag\<lparr>track := track ag @ map Val pts @
                       [get_dummy_point (width env0) (length_road env0) p],
                  registered := registered ag @ [tr]\<rparr>)\<rparr>"
    by blast
  let ?ag1 = "ag\<lparr>track := track ag @ map Val pts @
                       [get_dummy_point (width env) (length_road env) p],
                  registered := registered ag @ [tr]\<rparr>"
  have g1: "agents env1 a_id = Some ?ag1"
    using a1 e w0 l0 by simp
  have tc: "torch_cat ?ag1 = Some tr"
    using tr unfolding w0 l0 by (simp add: torch_cat_registered)
  have f1: "agents env a_id = Some ag"
    using ag a0 by simp
  from lr_points_Inr [OF pts] w0 have
    f4: "length pts = length (intermediate_goals ag)"
    and f5: "\<forall>k. py_index lr_actions_list action = Some k \<longrightarrow>
          pts = map (\<lambda>g. if (d + 1) mod 2 = 0
                          then (fst (fst g) + lr_actions_list ! k * width env / 2, snd (fst g))
                          else (fst (fst g), snd (fst g) + lr_actions_list ! k * width env / 2))
                    (intermediate_goals ag)"
    by simp_all
  have f7: "track ?ag1 = track ag @ map Val pts @
              [get_dummy_point (width env) (length_road env) p]"
    by simp
  have f8: "intermediate_goals ?ag1 = intermediate_goals ag"
    by simp
  have f9: "\<exists>tr. torch_cat ?ag1 = Some tr \<and> registered ?ag1 = registered ag @ [tr]"
    using tc by simp
  from f1 g1 d f4 f5 p f7 f8 f9 show ?thesis
    apply (rule_tac x = ag in exI)
    apply (rule_tac x = "?ag1" in exI)
    apply (rule_tac x = d in exI)
    apply (rule_tac x = pts in exI)
    apply (rule_tac x = p in exI)
    apply (intro conjI; assumption)
    done
qed

lemma env_after_Suc: "env_after X (Suc k) env = snd (snd (tick X (env_after X k env)))"
  by (induction k arbitrary: env) simp_all

lemma env_after_agents:
  "(\<forall>k<m. agents (env_after X (Suc k) env) a_id = agents (env_after X k env) a_id)
   \<Longrightarrow> agents (env_after X m env) a_id = agents env a_id"
proof (induction m)
  case 0
  show ?case by simp
next
  case (Suc m)
  from Suc.prems have "agents (env_after X (Suc m) env) a_id = agents (env_after X m env) a_id"
    by blast
  moreover from Suc.prems have "agents (env_after X m env) a_id = agents env a_id"
    by (intro Suc.IH) auto
  ultimately show ?case by simp
qed

lemma demo_internal_state_loop:
  "internal_state_loop (\<lambda>env a_id. ((), env)) e ids = (map (\<lambda>a_id. (a_id, ())) ids, e)"
  by (induction ids) simp_all

lemma demo_tick_agents: "agents (snd (snd (tick demo_X e))) = agents e"
  by (simp add: tick_def get_internal_state_def demo_X_def demo_internal_state_loop)

lemma demo_env_after_agents: "agents (env_after demo_X k e) = agents e"
  by (induction k arbitrary: e) (simp_all add: demo_tick_agents)

lemma demo_env_lr_run:
  "\<exists>rewards env2. lr_step demo_X [(''agent_0'', 0)] demo_env_lr
       = Some (Inr ((None, PerAgent rewards, True), env2))"
  unfolding demo_env_lr_def
  by (simp add: lr_step_def lr_step_agent_def road_coord_def digit_of_def py_index_def
        lr_actions_list_def deref_def get_dummy_point_def torch_cat_def Let_def demo_roll)

text \<open>
  C7: for an agent of \<^verbatim>\<open>actions\<close> (a dictionary, so its keys are distinct), a
  left/right \<^verbatim>\<open>step\<close> call returns a result exactly when its \<^verbatim>\<open>for\<close> loop raises
  nothing and the rollout that follows ends, the base environment reporting
  \<^verbatim>\<open>dones["__all__"]\<close> first in some pass \<open>n\<close> and paying agent ids only. The
  result is then \<^verbatim>\<open>None\<close>, the reward dictionary and \<^verbatim>\<open>done = True\<close>, and in the
  environment the rollout starts from the agent's track has got, in this one call,
  one point per intermediate goal, the goal's \<^verbatim>\<open>[:2]\<close> with the selected offset times
  \<open>width / 2\<close> added at coordinate \<open>(d + 1) mod 2\<close>, where \<open>d\<close> is the digit that
  ends the road name, then one trailing dummy point computed from the last entry;
  the intermediate goals are unchanged and \<^verbatim>\<open>register_track\<close> has been called once,
  with the concatenated track. Where the base environment's passes leave the agent's
  record alone, this is the agent's record in the environment the call returns.
\<close>

theorem lr_step_builds_track_in_one_call:
  fixes env :: "('o, 'b) env"
  assumes "distinct (map fst actions)" and "(a_id, action) \<in> set actions"
  shows "lr_step X actions env = Some (Inr ((obs, rew, finished), env2)) \<longleftrightarrow>
    (\<exists>env1 n ag ag1 d pts p.
        lr_step_loop env actions = Inr env1
      \<and> (\<forall>k<n. \<not> tick_done X env1 k) \<and> tick_done X env1 n
      \<and> (\<forall>k\<le>n. fst ` set (tick_rew X env1 k) \<subseteq> set (agent_ids env1))
      \<and> obs = None \<and> finished
      \<and> rew = PerAgent (\<lambda>a. if a \<in> set (agent_ids env1)
                             then Some (\<Sum>k\<le>n. rew_of (tick_rew X env1 k) a) else None)
      \<and> env2 = env_after X (Suc n) env1
      \<and> agents env a_id = Some ag \<and> agents env1 a_id = Some ag1
      \<and> digit_of (last (road_name ag)) = Some d
      \<and> length pts = length (intermediate_goals ag)
      \<and> (\<forall>k. py_index lr_actions_list action = Some k \<longrightarrow>
            pts = map (\<lambda>g. if (d + 1) mod 2 = 0
                            then (fst (fst g) + lr_actions_list ! k * width env / 2, snd (fst g))
                            else (fst (fst g), snd (fst g) + lr_actions_list ! k * width env / 2))
                      (intermediate_goals ag))
      \<and> deref ag (last (track ag @ map Val pts)) = Some p
      \<and> track ag1 = track ag @ map Val pts @ [get_dummy_point (width env) (length_road env) p]
      \<and> intermediate_goals ag1 = intermediate_goals ag
      \<and> (\<exists>tr. torch_cat ag1 = Some tr \<and> registered ag1 = registered ag @ [tr])
      \<and> ((\<forall>k\<le>n. agents (env_after X (Suc k) env1) a_id = agents (env_after X k env1) a_id)
          \<longrightarrow> agents env2 a_id = Some ag1))"
  (is "?L \<longleftrightarrow> ?R")
proof
  assume l: ?L
  from l obtain env1 where loop: "lr_step_loop env actions = Inr env1"
    by (auto simp: lr_step_def split: sum.splits)
  from l loop obtain rewards where
    ro: "rollout X env1 (init_rewards (agent_ids env1)) = Some (Inr (rewards, env2))"
    and o: "obs = None" and f: "finished" and rw: "rew = PerAgent rewards"
    by (auto simp: lr_step_def split: option.splits sum.splits)
  from ro [unfolded rollout_init_iff] obtain n where
    n1: "\<forall>k<n. \<not> tick_done X env1 k" and n2: "tick_done X env1 n"
    and n3: "\<forall>k\<le>n. fst ` set (tick_rew X env1 k) \<subseteq> set (agent_ids env1)"
    and r: "rewards = (\<lambda>a. if a \<in> set (agent_ids env1)
                           then Some (\<Sum>k\<le>n. rew_of (tick_rew X env1 k) a) else None)"
    and e2: "env2 = env_after X (Suc n) env1"
    by blast
  from lr_step_loop_builds [OF loop assms] obtain ag ag1 d pts p where
    b1: "agents env a_id = Some ag" and b2: "agents env1 a_id = Some ag1"
    and b3: "digit_of (last (road_name ag)) = Some d"
    and b4: "length pts = length (intermediate_goals ag)"
    and b5: "\<forall>k. py_index lr_actions_list action = Some k \<longrightarrow>
            pts = map (\<lambda>g. if (d + 1) mod 2 = 0
                            then (fst (fst g) + lr_actions_list ! k * width env / 2, snd (fst g))
                            else (fst (fst g), snd (fst g) + lr_actions_list ! k * width env / 2))
                      (intermediate_goals ag)"
    and b6: "deref ag (last (track ag @ map Val pts)) = Some p"
    and b7: "track ag1 = track ag @ map Val pts @ [get_dummy_point (width env) (length_road env) p]"
    and b8: "intermediate_goals ag1 = intermediate_goals ag"
    and b9: "\<exists>tr. torch_cat ag1 = Some tr \<and> registered ag1 = registered ag @ [tr]"
    by blast
  have rw': "rew = PerAgent (\<lambda>a. if a \<in> set (agent_ids env1)
                             then Some (\<Sum>k\<le>n. rew_of (tick_rew X env1 k) a) else None)"
    using rw r by simp
  have keep: "(\<forall>k\<le>n. agents (env_after X (Suc k) env1) a_id = agents (env_after X k env1) a_id)
          \<longrightarrow> agents env2 a_id = Some ag1"
  proof
    assume "\<forall>k\<le>n. agents (env_after X (Suc k) env1) a_id = agents (env_after X k env1) a_id"
    then have "\<forall>k<Suc n. agents (env_after X (Suc k) env1) a_id = agents (env_after X k env1) a_id"
      by (simp add: less_Suc_eq_le)
    from env_after_agents [OF this] b2 show "agents env2 a_id = Some ag1"
      unfolding e2 by simp
  qed
  from loop n1 n2 n3 o f rw' e2 b1 b2 b3 b4 b5 b6 b7 b8 b9 keep show ?R
    apply (rule_tac x = env1 in exI)
    apply (rule_tac x = n in exI)
    apply (rule_tac x = ag in exI)
    apply (rule_tac x = ag1 in exI)
    apply (rule_tac x = d in exI)
    apply (rule_tac x = pts in exI)
    apply (rule_tac x = p in exI)
    apply (intro conjI; assumption)
    done
next
  assume ?R
  then obtain env1 n where loop: "lr_step_loop env actions = Inr env1"
    and n1: "\<forall>k<n. \<not> tick_done X env1 k" and n2: "tick_done X env1 n"
    and n3: "\<forall>k\<le>n. fst ` set (tick_rew X env1 k) \<subseteq> set (agent_ids env1)"
    and o: "obs = None" and f: "finished"
    and rw: "rew = PerAgent (\<lambda>a. if a \<in> set (agent_ids env1)
                             then Some (\<Sum>k\<le>n. rew_of (tick_rew X env1 k) a) else None)"
    and e2: "env2 = env_after X (Suc n) env1"
    by blast
  have "rollout X env1 (init_rewards (agent_ids env1)) =
          Some (Inr (\<lambda>a. if a \<in> set (agent_ids env1)
                          then Some (\<Sum>k\<le>n. rew_of (tick_rew X env1 k) a) else None, env2))"
    unfolding rollout_init_iff using n1 n2 n3 e2 by blast
  then show ?L
    using loop o f rw by (simp add: lr_step_def)
qed

theorem lr_step_builds_track_in_one_call_witness:
  "(\<exists>rewards env2 ag1. lr_step demo_X [(''agent_0'', 2)] demo_env
        = Some (Inr ((None, PerAgent rewards, True), env2))
      \<and> agents env2 ''agent_0'' = Some ag1
      \<and> track ag1 = [Val (11, 0), Val (3, 0), Val (1, 0.5), Val (0, 1.5), Val (0, 3.5),
                      Val (0, 11)]
      \<and> registered ag1 = [[(11, 0), (3, 0), (1, 0.5), (0, 1.5), (0, 3.5), (0, 11)]])
   \<and> (\<exists>rewards env2 ag1. lr_step demo_X [(''agent_0'', 0)] demo_env_lr
        = Some (Inr ((None, PerAgent rewards, True), env2))
      \<and> agents env2 ''agent_0'' = Some ag1
      \<and> track ag1 = [Val (0, 11), Val (0, 3), Val (- 0.5, 1), Val (2.5, 0), Val (11, 0)]
      \<and> registered ag1 = [[(0, 11), (0, 3), (- 0.5, 1), (2.5, 0), (11, 0)]])"
proof -
  let ?A = "\<lparr>position = (3, 0), speed = 1, orientation = 0, road_name = ''traffic_signal_0'',
         intermediate_goals = [((1, 0), []), ((0, 1), []), ((0, 3), [])], track_point = 0,
         previous_start_point = Val (3, 0), track = [Val (11, 0), Val (3, 0)],
         registered = []\<rparr>"
  let ?B = "\<lparr>position = (0, 3), speed = 1, orientation = 0, road_name = ''traffic_signal_1'',
         intermediate_goals = [((0, 1), []), ((3, 0), [])], track_point = 0,
         previous_start_point = Val (0, 3), track = [Val (0, 11), Val (0, 3)],
         registered = []\<rparr>"
  have k2: "py_index lr_actions_list 2 = Some 2" and k0: "py_index lr_actions_list 0 = Some 0"
    by (simp_all add: py_index_def lr_actions_list_def)
  have d0: "digit_of (last ''traffic_signal_0'') = Some 0"
    and d1: "digit_of (last ''traffic_signal_1'') = Some 1"
    by (simp_all add: digit_of_def)
  have keep: "\<forall>k\<le>n. agents (env_after demo_X (Suc k) e) ''agent_0''
                     = agents (env_after demo_X k e) ''agent_0''" for n e
    by (simp only: demo_env_after_agents) simp
  have first: "\<exists>rewards env2 ag1. lr_step demo_X [(''agent_0'', 2)] demo_env
        = Some (Inr ((None, PerAgent rewards, True), env2))
      \<and> agents env2 ''agent_0'' = Some ag1
      \<and> track ag1 = [Val (11, 0), Val (3, 0), Val (1, 0.5), Val (0, 1.5), Val (0, 3.5),
                      Val (0, 11)]
      \<and> registered ag1 = [[(11, 0), (3, 0), (1, 0.5), (0, 1.5), (0, 3.5), (0, 11)]]"
  proof -
    have "\<exists>rewards env2. lr_step demo_X [(''agent_0'', 2)] demo_env
       = Some (Inr ((None, PerAgent rewards, True), env2))"
      unfolding demo_env_eq
      by (simp add: lr_step_def lr_step_agent_def road_coord_def digit_of_def py_index_def
            lr_actions_list_def deref_def get_dummy_point_def torch_cat_def Let_def demo_roll)
    then obtain rewards env2 where
      s: "lr_step demo_X [(''agent_0'', 2)] demo_env
            = Some (Inr ((None, PerAgent rewards, True), env2))"
      by blast
    have dist: "distinct (map fst [(''agent_0'', 2 :: int)])"
      and m: "(''agent_0'', 2) \<in> set [(''agent_0'', 2 :: int)]"
      by simp_all
    have a: "agents demo_env ''agent_0'' = Some ?A"
      unfolding demo_env_eq by simp
    have w: "width demo_env = 2" "length_road demo_env = 10"
      unfolding demo_env_eq by simp_all
    from s [unfolded lr_step_builds_track_in_one_call [OF dist m]] a keep
    obtain ag1 d pts p tr where
      a2: "agents env2 ''agent_0'' = Some ag1"
      and d: "digit_of (last (road_name ?A)) = Some d"
      and pts: "\<forall>k. py_index lr_actions_list 2 = Some k \<longrightarrow>
            pts = map (\<lambda>g. if (d + 1) mod 2 = 0
                            then (fst (fst g) + lr_actions_list ! k * width demo_env / 2, snd (fst g))
                            else (fst (fst g), snd (fst g) + lr_actions_list ! k * width demo_env / 2))
                      (intermediate_goals ?A)"
      and p: "deref ?A (last (track ?A @ map Val pts)) = Some p"
      and t: "track ag1 = track ?A @ map Val pts @
                [get_dummy_point (width demo_env) (length_road demo_env) p]"
      and tr: "torch_cat ag1 = Some tr" and rg: "registered ag1 = registered ?A @ [tr]"
      by auto
    from d d0 have dv: "d = 0" by simp
    from pts [rule_format, OF k2] have pv: "pts = [(1, 0.5), (0, 1.5), (0, 3.5)]"
      unfolding dv w by (simp add: lr_actions_list_def)
    from p have p0: "p = (0, 3.5)"
      unfolding pv by (simp add: deref_def)
    have tv: "track ag1 = [Val (11, 0), Val (3, 0), Val (1, 0.5), Val (0, 1.5), Val (0, 3.5),
                           Val (0, 11)]"
      unfolding t pv p0 w by (simp add: get_dummy_point_def)
    from tr have "tr = [(11, 0), (3, 0), (1, 0.5), (0, 1.5), (0, 3.5), (0, 11)]"
      unfolding torch_cat_def tv by (simp add: deref_def)
    with rg have rv: "registered ag1 = [[(11, 0), (3, 0), (1, 0.5), (0, 1.5), (0, 3.5), (0, 11)]]"
      by simp
    from s a2 tv rv show ?thesis by blast
  qed
  have second: "\<exists>rewards env2 ag1. lr_step demo_X [(''agent_0'', 0)] demo_env_lr
        = Some (Inr ((None, PerAgent rewards, True), env2))
      \<and> agents env2 ''agent_0'' = Some ag1
      \<and> track ag1 = [Val (0, 11), Val (0, 3), Val (- 0.5, 1), Val (2.5, 0), Val (11, 0)]
      \<and> registered ag1 = [[(0, 11), (0, 3), (- 0.5, 1), (2.5, 0), (11, 0)]]"
  proof -
    from demo_env_lr_run obtain rewards env2 where
      s: "lr_step demo_X [(''agent_0'', 0)] demo_env_lr
            = Some (Inr ((None, PerAgent rewards, True), env2))"
      by blast
    have dist: "distinct (map fst [(''agent_0'', 0 :: int)])"
      and m: "(''agent_0'', 0) \<in> set [(''agent_0'', 0 :: int)]"
      by simp_all
    have a: "agents demo_env_lr ''agent_0'' = Some ?B"
      unfolding demo_env_lr_def by simp
    have w: "width demo_env_lr = 2" "length_road demo_env_lr = 10"
      unfolding demo_env_lr_def by simp_all
    from s [unfolded lr_step_builds_track_in_one_call [OF dist m]] a keep
    obtain ag1 d pts p tr where
      a2: "agents env2 ''agent_0'' = Some ag1"
      and d: "digit_of (last (road_name ?B)) = Some d"
      and pts: "\<forall>k. py_index lr_actions_list 0 = Some k \<longrightarrow>
            pts = map (\<lambda>g. if (d + 1) mod 2 = 0
                            then (fst (fst g) + lr_actions_list ! k * width demo_env_lr / 2, snd (fst g))
                            else (fst (fst g), snd (fst g) + lr_actions_list ! k * width demo_env_lr / 2))
                      (intermediate_goals ?B)"
      and p: "deref ?B (last (track ?B @ map Val pts)) = Some p"
      and t: "track ag1 = track ?B @ map Val pts @
                [get_dummy_point (width demo_env_lr) (length_road demo_env_lr) p]"
      and tr: "torch_cat ag1 = Some tr" and rg: "registered ag1 = registered ?B @ [tr]"
      by auto
    from d d1 have dv: "d = 1" by simp
    from pts [rule_format, OF k0] have pv: "pts = [(- 0.5, 1), (2.5, 0)]"
      unfolding dv w by (simp add: lr_actions_list_def)
    from p have p0: "p = (2.5, 0)"
      unfolding pv by (simp add: deref_def)
    have tv: "track ag1 = [Val (0, 11), Val (0, 3), Val (- 0.5, 1), Val (2.5, 0), Val (11, 0)]"
      unfolding t pv p0 w by (simp add: get_dummy_point_def)
    from tr have "tr = [(0, 11), (0, 3), (- 0.5, 1), (2.5, 0), (11, 0)]"
      unfolding torch_cat_def tv by (simp add: deref_def)
    with rg have rv: "registered ag1 = [[(0, 11), (0, 3), (- 0.5, 1), (2.5, 0), (11, 0)]]"
      by simp
    from s a2 tv rv show ?thesis by blast
  qed
  from first second show ?thesis by blast
qed

end
